theory Spec2Isabelle
  imports Complex_Main
begin

text \<open>
  The spatial audio transition engine of EONTA: the map utilities that relate a listener's
  position to a polygonal boundary, the audio service that owns the live sources and their
  effect chains, and the boundary transition manager that turns distances into calls on the
  audio service. Each source function is a HOL function of the same name; what a method
  changes is passed in and returned.
\<close>

section \<open>Numbers\<close>

text \<open>
  JavaScript numbers are doubles. The arguments of every function are finite numbers, taken
  as real numbers. Where the source can leave the finite numbers (a division whose divisor
  may be zero, the initial \<^verbatim>\<open>Infinity\<close> of a running minimum), the value is a \<open>jsnum\<close>,
  which adds the two infinities and \<^verbatim>\<open>NaN\<close>.

  Rounding is modelled where the last bit of a computed number decides a branch that a
  property below depends on: in the ray-casting test of \<^verbatim>\<open>isPointInPolygon\<close> and in the exit
  progress that is compared with the teardown threshold. There every arithmetic operation is
  followed by \<open>double\<close>, the rounding to the nearest number with a 53-bit significand, ties
  to the even significand. The exponent is not bounded: overflow and subnormal numbers are
  not modelled. Everywhere else arithmetic is exact.
\<close>

datatype jsnum = Num real | PosInf | NegInf | NaN

definition pow2 :: "int \<Rightarrow> real" where
  "pow2 e = (if 0 \<le> e then 2 ^ nat e else 1 / 2 ^ nat (- e))"

definition roundEven :: "real \<Rightarrow> int" where
  "roundEven x =
     (let f = \<lfloor>x\<rfloor>
      in if x - of_int f < 1 / 2 then f
         else if 1 / 2 < x - of_int f then f + 1
         else if even f then f else f + 1)"

definition double :: "real \<Rightarrow> real" where
  "double x =
     (if x = 0 then 0
      else let e = \<lfloor>log 2 \<bar>x\<bar>\<rfloor> - 52
           in of_int (roundEven (x / pow2 e)) * pow2 e)"

text \<open>The four operations on doubles.\<close>

definition fadd :: "real \<Rightarrow> real \<Rightarrow> real" where "fadd a b = double (a + b)"
definition fsub :: "real \<Rightarrow> real \<Rightarrow> real" where "fsub a b = double (a - b)"
definition fmul :: "real \<Rightarrow> real \<Rightarrow> real" where "fmul a b = double (a * b)"
definition fdiv :: "real \<Rightarrow> real \<Rightarrow> real" where "fdiv a b = double (a / b)"

text \<open>\<^verbatim>\<open>a / b\<close> on finite operands.\<close>

definition js_div :: "real \<Rightarrow> real \<Rightarrow> jsnum" where
  "js_div a b =
     (if b = 0 then (if a = 0 then NaN else if 0 < a then PosInf else NegInf)
      else Num (a / b))"

text \<open>\<^verbatim>\<open>Math.max(a, x)\<close> and \<^verbatim>\<open>Math.min(a, x)\<close> with a finite first argument.\<close>

fun js_max :: "real \<Rightarrow> jsnum \<Rightarrow> jsnum" where
  "js_max a (Num x) = Num (max a x)"
| "js_max a PosInf = PosInf"
| "js_max a NegInf = Num a"
| "js_max a NaN = NaN"

fun js_min :: "real \<Rightarrow> jsnum \<Rightarrow> jsnum" where
  "js_min a (Num x) = Num (min a x)"
| "js_min a PosInf = Num a"
| "js_min a NegInf = NegInf"
| "js_min a NaN = NaN"

text \<open>Unary minus, and the test \<^verbatim>\<open>x < 0\<close>.\<close>

fun js_neg :: "jsnum \<Rightarrow> jsnum" where
  "js_neg (Num x) = Num (- x)"
| "js_neg PosInf = NegInf"
| "js_neg NegInf = PosInf"
| "js_neg NaN = NaN"

fun js_negative :: "jsnum \<Rightarrow> bool" where
  "js_negative (Num x) = (x < 0)"
| "js_negative NegInf = True"
| "js_negative PosInf = False"
| "js_negative NaN = False"

text \<open>Arithmetic and comparisons on \<open>jsnum\<close>, as IEEE 754 defines them on the special values.\<close>

fun js_add :: "jsnum \<Rightarrow> jsnum \<Rightarrow> jsnum" where
  "js_add (Num a) (Num b) = Num (a + b)"
| "js_add NaN _ = NaN"
| "js_add _ NaN = NaN"
| "js_add PosInf NegInf = NaN"
| "js_add NegInf PosInf = NaN"
| "js_add PosInf _ = PosInf"
| "js_add NegInf _ = NegInf"
| "js_add _ PosInf = PosInf"
| "js_add _ NegInf = NegInf"

definition js_sub :: "jsnum \<Rightarrow> jsnum \<Rightarrow> jsnum" where
  "js_sub a b = js_add a (js_neg b)"

fun js_mul :: "jsnum \<Rightarrow> jsnum \<Rightarrow> jsnum" where
  "js_mul (Num a) (Num b) = Num (a * b)"
| "js_mul NaN _ = NaN"
| "js_mul _ NaN = NaN"
| "js_mul PosInf (Num b) = (if b = 0 then NaN else if 0 < b then PosInf else NegInf)"
| "js_mul NegInf (Num b) = (if b = 0 then NaN else if 0 < b then NegInf else PosInf)"
| "js_mul (Num a) PosInf = (if a = 0 then NaN else if 0 < a then PosInf else NegInf)"
| "js_mul (Num a) NegInf = (if a = 0 then NaN else if 0 < a then NegInf else PosInf)"
| "js_mul PosInf PosInf = PosInf"
| "js_mul NegInf NegInf = PosInf"
| "js_mul PosInf NegInf = NegInf"
| "js_mul NegInf PosInf = NegInf"

fun js_lt :: "jsnum \<Rightarrow> jsnum \<Rightarrow> bool" where
  "js_lt (Num a) (Num b) = (a < b)"
| "js_lt NaN _ = False"
| "js_lt _ NaN = False"
| "js_lt _ NegInf = False"
| "js_lt PosInf _ = False"
| "js_lt NegInf _ = True"
| "js_lt _ PosInf = True"

fun js_le :: "jsnum \<Rightarrow> jsnum \<Rightarrow> bool" where
  "js_le (Num a) (Num b) = (a \<le> b)"
| "js_le NaN _ = False"
| "js_le _ NaN = False"
| "js_le NegInf _ = True"
| "js_le _ PosInf = True"
| "js_le _ NegInf = False"
| "js_le PosInf _ = False"

text \<open>\<^verbatim>\<open>Math.cos\<close>.\<close>

fun js_cos :: "jsnum \<Rightarrow> jsnum" where
  "js_cos (Num x) = Num (cos x)"
| "js_cos _ = NaN"

text \<open>Rounding the finite result of an operation.\<close>

fun js_round :: "jsnum \<Rightarrow> jsnum" where
  "js_round (Num x) = Num (double x)"
| "js_round v = v"

section \<open>Map utilities\<close>

text \<open>
  Points are \<^verbatim>\<open>{lat, lng}\<close> objects. Of the map utilities, the segment distance, the
  containment test, the signed distance to a boundary and the polygon simplification are
  modelled.
\<close>

record point =
  lat :: real
  lng :: real

text \<open>\<^verbatim>\<open>distanceToLine(x, y, x1, y1, x2, y2)\<close>: distance from a point to a line segment.\<close>

definition distanceToLine :: "real \<Rightarrow> real \<Rightarrow> real \<Rightarrow> real \<Rightarrow> real \<Rightarrow> real \<Rightarrow> real" where
  "distanceToLine x y x1 y1 x2 y2 =
     (let A = x - x1; B = y - y1; C = x2 - x1; D = y2 - y1;
          dot = A * C + B * D;
          len_sq = C * C + D * D;
          param = (if len_sq \<noteq> 0 then dot / len_sq else - 1);
          xx = (if param < 0 then x1 else if param > 1 then x2 else x1 + param * C);
          yy = (if param < 0 then y1 else if param > 1 then y2 else y1 + param * D);
          dx = x - xx; dy = y - yy
      in sqrt (dx * dx + dy * dy) * 111000)"

text \<open>
  \<^verbatim>\<open>isPointInPolygon(point, polygon)\<close>: the loop
  \<^verbatim>\<open>for (let i = 0, j = polygon.length - 1; i < polygon.length; j = i++)\<close>
  carries \<open>j\<close> and \<open>inside\<close>; the second conjunct of \<^verbatim>\<open>intersect\<close> is only evaluated
  when the first holds, and then \<open>yj - yi\<close> is not zero. The intercept
  \<^verbatim>\<open>(xj - xi) * (point.lat - yi) / (yj - yi) + xi\<close> is computed in doubles, operation by
  operation.
\<close>

definition intercept :: "point \<Rightarrow> point \<Rightarrow> point \<Rightarrow> real" where
  "intercept p p_i p_j =
     (let xi = lng p_i; yi = lat p_i; xj = lng p_j; yj = lat p_j
      in fadd (fdiv (fmul (fsub xj xi) (fsub (lat p) yi)) (fsub yj yi)) xi)"

definition intersect :: "point \<Rightarrow> point \<Rightarrow> point \<Rightarrow> bool" where
  "intersect p p_i p_j =
     (let yi = lat p_i; yj = lat p_j
      in if (yi > lat p) \<noteq> (yj > lat p) then lng p < intercept p p_i p_j else False)"

definition isPointInPolygon_step :: "point \<Rightarrow> point list \<Rightarrow> nat \<Rightarrow> nat \<times> bool \<Rightarrow> nat \<times> bool" where
  "isPointInPolygon_step p polygon i st =
     (case st of (j, inside) \<Rightarrow>
        (i, if intersect p (polygon ! i) (polygon ! j) then \<not> inside else inside))"

definition isPointInPolygon :: "point \<Rightarrow> point list \<Rightarrow> bool" where
  "isPointInPolygon p polygon =
     snd (fold (isPointInPolygon_step p polygon) [0..<length polygon]
            (length polygon - 1, False))"

text \<open>
  \<^verbatim>\<open>getDistanceToBoundaryEdge(position, polygon)\<close>: \<open>minDistance\<close> starts at
  \<^verbatim>\<open>Infinity\<close>, so the result is a \<open>jsnum\<close>. The distances are exact; rounded or not
  they are not negative, so the result can be negative only when \<open>isInside\<close> holds.
\<close>

definition edgeDistance :: "point \<Rightarrow> point list \<Rightarrow> nat \<Rightarrow> real" where
  "edgeDistance position polygon i =
     (let p1 = polygon ! i; p2 = polygon ! ((i + 1) mod length polygon)
      in distanceToLine (lat position) (lng position) (lat p1) (lng p1) (lat p2) (lng p2))"

definition getDistanceToBoundaryEdge :: "point \<Rightarrow> point list \<Rightarrow> jsnum" where
  "getDistanceToBoundaryEdge position polygon =
     (let isInside = isPointInPolygon position polygon;
          minDistance = fold (\<lambda>i minDistance. js_min (edgeDistance position polygon i) minDistance)
                          [0..<length polygon] PosInf
      in if isInside then js_neg minDistance else minDistance)"

text \<open>
  \<^verbatim>\<open>simplifyPolygon(points, tolerance)\<close>. The array holds point objects, and
  \<^verbatim>\<open>result.includes(points[end])\<close> compares object identity, not coordinates. So an array
  is a list of references, and a heap gives each reference its coordinates. The recursion of
  \<^verbatim>\<open>simplifySegment\<close> need not end (a negative tolerance makes it call itself on the same
  segment for ever, until the stack overflows), so the model returns an option: \<open>None\<close>
  stands for not returning.
\<close>

type_synonym ref = nat

definition findFurthestPoint :: "(ref \<Rightarrow> point) \<Rightarrow> ref list \<Rightarrow> nat \<Rightarrow> nat \<Rightarrow> real \<times> nat" where
  "findFurthestPoint h points start end =
     fold (\<lambda>i (maxDistance, maxIndex).
             let distance = distanceToLine
                   (lat (h (points ! i))) (lng (h (points ! i)))
                   (lat (h (points ! start))) (lng (h (points ! start)))
                   (lat (h (points ! end))) (lng (h (points ! end)))
             in if distance > maxDistance then (distance, i) else (maxDistance, maxIndex))
       [start + 1..<end] (0, 0)"

partial_function (option) simplifySegment ::
  "(ref \<Rightarrow> point) \<Rightarrow> ref list \<Rightarrow> real \<Rightarrow> nat \<Rightarrow> nat \<Rightarrow> ref list \<Rightarrow> ref list option" where
  "simplifySegment h points tolerance start end result =
     (case findFurthestPoint h points start end of (maxDistance, maxIndex) \<Rightarrow>
        if maxDistance > tolerance
        then Option.bind (simplifySegment h points tolerance start maxIndex result)
               (\<lambda>result. simplifySegment h points tolerance maxIndex end result)
        else Some (if points ! end \<in> set result then result else result @ [points ! end]))"

definition simplifyPolygon :: "(ref \<Rightarrow> point) \<Rightarrow> ref list \<Rightarrow> real \<Rightarrow> ref list option" where
  "simplifyPolygon h points tolerance =
     (if length points \<le> 2 then Some points
      else simplifySegment h points tolerance 0 (length points - 1) [points ! 0])"

section \<open>EnhancedAudioService\<close>

text \<open>
  The rendering backend is outside the repository. An \<^verbatim>\<open>AudioParam\<close> is modelled by the
  list of automation commands the service has issued on it, in order. Reading
  \<^verbatim>\<open>param.value\<close> yields whatever the backend has computed, so
  \<^verbatim>\<open>param.setValueAtTime(param.value, t)\<close> is recorded as \<open>HoldValueAtTime t\<close>.
\<close>

datatype automation =
    SetValue real
  | SetValueAtTime real real
  | HoldValueAtTime real
  | LinearRampToValueAtTime real real

type_synonym audioParam = "automation list"

text \<open>
  The objects the effect factories return: the filter's \<^verbatim>\<open>frequency\<close> and \<^verbatim>\<open>Q\<close>; the
  reverb's \<^verbatim>\<open>wetGain.gain\<close>, \<^verbatim>\<open>dryGain.gain\<close> and the duration of its impulse response;
  the delay's \<^verbatim>\<open>delayTime\<close> and \<^verbatim>\<open>feedback.gain\<close>; the pitch shifter's
  \<^verbatim>\<open>pitchRatio\<close>; the panner's \<^verbatim>\<open>pan\<close>. The \<^verbatim>\<open>connect\<close> wiring of the nodes is not
  modelled.
\<close>

datatype filterNode = FilterNode audioParam audioParam
datatype reverbNode = ReverbNode audioParam audioParam real
datatype delayNode = DelayNode audioParam audioParam
datatype pitchNode = PitchNode real
datatype pannerNode = PannerNode audioParam

text \<open>
  \<^verbatim>\<open>effectNodes.get(id)\<close> is a \<^verbatim>\<open>Map\<close> that \<^verbatim>\<open>playAudio\<close> fills only under the six keys
  of \<^verbatim>\<open>effectFactories\<close>, each with the object its factory builds: one optional field per key.
\<close>

record effectsMap =
  lowpassFx :: "filterNode option"
  highpassFx :: "filterNode option"
  reverbFx :: "reverbNode option"
  delayFx :: "delayNode option"
  pitchShiftFx :: "pitchNode option"
  spatialAudioFx :: "pannerNode option"

definition emptyEffects :: effectsMap where
  "emptyEffects = \<lparr>lowpassFx = None, highpassFx = None, reverbFx = None, delayFx = None,
                    pitchShiftFx = None, spatialAudioFx = None\<rparr>"

text \<open>The keys present in the map (\<^verbatim>\<open>effectsMap.get(effectType)\<close> is defined).\<close>

definition hasEffect :: "effectsMap \<Rightarrow> string \<Rightarrow> bool" where
  "hasEffect m effectType =
     (if effectType = ''lowpass'' then lowpassFx m \<noteq> None
      else if effectType = ''highpass'' then highpassFx m \<noteq> None
      else if effectType = ''reverb'' then reverbFx m \<noteq> None
      else if effectType = ''delay'' then delayFx m \<noteq> None
      else if effectType = ''pitchShift'' then pitchShiftFx m \<noteq> None
      else if effectType = ''spatialAudio'' then spatialAudioFx m \<noteq> None
      else False)"

text \<open>Values of an options object: booleans and (finite) numbers.\<close>

datatype jsval = JBool bool | JNumber real

fun truthy :: "jsval \<Rightarrow> bool" where
  "truthy (JBool b) = b"
| "truthy (JNumber x) = (x \<noteq> 0)"

text \<open>\<^verbatim>\<open>parameters.key || dflt\<close>, then used as a number.\<close>

definition numberOr :: "(string \<times> jsval) list \<Rightarrow> string \<Rightarrow> real \<Rightarrow> real" where
  "numberOr parameters key dflt =
     (case map_of parameters key of
        None \<Rightarrow> dflt
      | Some (JNumber x) \<Rightarrow> if x = 0 then dflt else x
      | Some (JBool b) \<Rightarrow> if b then 1 else dflt)"

definition createLowpassFilter :: "(string \<times> jsval) list \<Rightarrow> filterNode" where
  "createLowpassFilter parameters =
     FilterNode [SetValue (numberOr parameters ''lowpassFrequency'' 20000)]
                [SetValue (numberOr parameters ''Q'' 1.0)]"

definition createHighpassFilter :: "(string \<times> jsval) list \<Rightarrow> filterNode" where
  "createHighpassFilter parameters =
     FilterNode [SetValue (numberOr parameters ''highpassFrequency'' 20)]
                [SetValue (numberOr parameters ''Q'' 1.0)]"

definition createReverb :: "(string \<times> jsval) list \<Rightarrow> reverbNode" where
  "createReverb parameters =
     (let mix = numberOr parameters ''reverbMix'' 0.3
      in ReverbNode [SetValue mix] [SetValue (1 - mix)] (numberOr parameters ''reverbDecay'' 2.0))"

definition createDelay :: "(string \<times> jsval) list \<Rightarrow> delayNode" where
  "createDelay parameters =
     DelayNode [SetValue (numberOr parameters ''delayTime'' 0.3)]
               [SetValue (numberOr parameters ''delayFeedback'' 0.3)]"

definition createPitchShifter :: "(string \<times> jsval) list \<Rightarrow> pitchNode" where
  "createPitchShifter parameters =
     PitchNode (2 powr (numberOr parameters ''pitchAmount'' 0 / 12))"

definition createSpatialAudio :: "(string \<times> jsval) list \<Rightarrow> pannerNode" where
  "createSpatialAudio parameters = PannerNode [SetValue (numberOr parameters ''pan'' 0)]"

text \<open>
  The property names every object inherits from \<^verbatim>\<open>Object.prototype\<close>.
  \<^verbatim>\<open>this.effectFactories[effectType]\<close> finds them too: the value is truthy, and calling it
  as a factory and wiring what it returns throws a \<^verbatim>\<open>TypeError\<close> (the value is not a
  function, or what it returns has no node as its \<^verbatim>\<open>input\<close>).
\<close>

definition inheritedKeys :: "string list" where
  "inheritedKeys =
     [''constructor'', ''hasOwnProperty'', ''isPrototypeOf'', ''propertyIsEnumerable'',
      ''toLocaleString'', ''toString'', ''valueOf'', ''__defineGetter__'', ''__defineSetter__'',
      ''__lookupGetter__'', ''__lookupSetter__'', ''__proto__'']"

text \<open>
  One iteration of \<^verbatim>\<open>for (const [effectType, enabled] of Object.entries(settings.effects))\<close>:
  a truthy entry whose key has a factory stores the node the factory builds from the whole
  \<^verbatim>\<open>settings.effects\<close> object; a truthy entry whose key is inherited throws, which is
  \<open>None\<close>; any other entry is skipped.
\<close>

definition addEffect :: "(string \<times> jsval) list \<Rightarrow> string \<times> jsval \<Rightarrow> effectsMap \<Rightarrow> effectsMap option" where
  "addEffect effects entry m =
     (case entry of (effectType, enabled) \<Rightarrow>
        if \<not> truthy enabled then Some m
        else if effectType = ''lowpass'' then Some (m\<lparr>lowpassFx := Some (createLowpassFilter effects)\<rparr>)
        else if effectType = ''highpass'' then Some (m\<lparr>highpassFx := Some (createHighpassFilter effects)\<rparr>)
        else if effectType = ''reverb'' then Some (m\<lparr>reverbFx := Some (createReverb effects)\<rparr>)
        else if effectType = ''delay'' then Some (m\<lparr>delayFx := Some (createDelay effects)\<rparr>)
        else if effectType = ''pitchShift'' then Some (m\<lparr>pitchShiftFx := Some (createPitchShifter effects)\<rparr>)
        else if effectType = ''spatialAudio'' then Some (m\<lparr>spatialAudioFx := Some (createSpatialAudio effects)\<rparr>)
        else if effectType \<in> set inheritedKeys then None
        else Some m)"

text \<open>
  The whole loop over the entries: \<open>Wired m\<close> when it runs to its end with the effect map
  \<open>m\<close>, \<open>WiringThrew m\<close> when an entry throws, with the map as filled until then.
\<close>

datatype wiring = Wired effectsMap | WiringThrew effectsMap

fun wireEffects :: "(string \<times> jsval) list \<Rightarrow> (string \<times> jsval) list \<Rightarrow> effectsMap \<Rightarrow> wiring" where
  "wireEffects effects [] m = Wired m"
| "wireEffects effects (entry # entries) m =
     (case addEffect effects entry m of
        None \<Rightarrow> WiringThrew m
      | Some m' \<Rightarrow> wireEffects effects entries m')"

text \<open>
  The service. Buffer sources are objects: \<open>nextSource\<close> numbers them as they are created,
  \<open>live\<close> holds those started and not yet stopped, and \<open>sources\<close> maps an id to its source
  object. \<open>timers\<close> holds the callbacks scheduled with \<^verbatim>\<open>setTimeout\<close> and not yet run,
  each with its delay in milliseconds.
\<close>

datatype callback = StopCleanup nat string | FadeOutCleanup string

record service =
  currentTime :: real
  nextSource :: nat
  live :: "nat set"
  sources :: "string \<rightharpoonup> nat"
  gainNodes :: "string \<rightharpoonup> audioParam"
  effectNodes :: "string \<rightharpoonup> effectsMap"
  timers :: "(real \<times> callback) list"

text \<open>
  The \<^verbatim>\<open>options\<close> argument of \<^verbatim>\<open>playAudio\<close>: every property may be absent, and one
  that is present holds a value of its type (a boolean, a finite number, an object of
  booleans and finite numbers).
\<close>

record playOptions =
  opt_loop :: "bool option"
  opt_volume :: "real option"
  opt_fadeIn :: "real option"
  opt_effects :: "(string \<times> jsval) list option"

text \<open>
  \<^verbatim>\<open>playAudio(id, url, options)\<close>. The function awaits the fetch and the decoding of the
  audio file; \<open>fetched\<close> says whether they succeeded. The steps after the awaits run in one
  piece, inside the same \<^verbatim>\<open>try\<close> block, whose \<^verbatim>\<open>catch\<close> returns false:
  \<^item> when the fetch or the decoding fails, nothing has been stored;
  \<^item> the source and the gain node are created and the three maps are written;
  \<^item> the effects are wired; when that throws, the source has not been started;
  \<^item> the source is started, and the fade-in is scheduled with \<^verbatim>\<open>setValueAtTime(0, now)\<close>
    and \<^verbatim>\<open>linearRampToValueAtTime(volume, now + fadeIn)\<close>, each of which throws a
    \<^verbatim>\<open>RangeError\<close> when its time is negative.
\<close>

definition playAudio :: "service \<Rightarrow> string \<Rightarrow> string \<Rightarrow> playOptions \<Rightarrow> bool \<Rightarrow> bool \<times> service" where
  "playAudio s ident url options fetched =
     (let volume = (case opt_volume options of None \<Rightarrow> 1.0 | Some v \<Rightarrow> v);
          fadeIn = (case opt_fadeIn options of None \<Rightarrow> 0.5 | Some f \<Rightarrow> f);
          effects = (case opt_effects options of None \<Rightarrow> [] | Some e \<Rightarrow> e)
      in if \<not> fetched then (False, s)
         else
           let source = nextSource s;
               stored = s\<lparr>nextSource := Suc source,
                          sources := (sources s)(ident \<mapsto> source),
                          gainNodes := (gainNodes s)(ident \<mapsto> [SetValue 0]),
                          effectNodes := (effectNodes s)(ident \<mapsto> emptyEffects)\<rparr>
           in case wireEffects effects effects emptyEffects of
                WiringThrew m \<Rightarrow>
                  (False, stored\<lparr>effectNodes := (effectNodes stored)(ident \<mapsto> m)\<rparr>)
              | Wired m \<Rightarrow>
                  let started = stored\<lparr>effectNodes := (effectNodes stored)(ident \<mapsto> m),
                                       live := insert source (live s)\<rparr>;
                      now = currentTime s
                  in if now < 0 then (False, started)
                     else if now + fadeIn < 0
                     then (False,
                           started\<lparr>gainNodes := (gainNodes started)(ident \<mapsto>
                                      [SetValue 0, SetValueAtTime 0 now])\<rparr>)
                     else (True,
                           started\<lparr>gainNodes := (gainNodes started)(ident \<mapsto>
                                      [SetValue 0, SetValueAtTime 0 now,
                                       LinearRampToValueAtTime volume (now + fadeIn)])\<rparr>))"

text \<open>\<^verbatim>\<open>stopAudio(id, fadeOut)\<close>: the cleanup closure captures the source object and the id.\<close>

definition stopAudio :: "service \<Rightarrow> string \<Rightarrow> real \<Rightarrow> bool \<times> service" where
  "stopAudio s ident fadeOut =
     (case (sources s ident, gainNodes s ident) of
        (Some source, Some gain) \<Rightarrow>
          (let now = currentTime s
           in (True,
               s\<lparr>gainNodes := (gainNodes s)(ident \<mapsto>
                    gain @ [HoldValueAtTime now, LinearRampToValueAtTime 0 (now + fadeOut)]),
                 timers := timers s @ [(fadeOut * 1000, StopCleanup source ident)]\<rparr>))
      | _ \<Rightarrow> (False, s))"

definition setVolume :: "service \<Rightarrow> string \<Rightarrow> real \<Rightarrow> bool \<times> service" where
  "setVolume s ident volume =
     (case gainNodes s ident of
        None \<Rightarrow> (False, s)
      | Some gain \<Rightarrow>
          (let now = currentTime s
           in (True,
               s\<lparr>gainNodes := (gainNodes s)(ident \<mapsto>
                    gain @ [HoldValueAtTime now, LinearRampToValueAtTime volume (now + 0.05)])\<rparr>)))"

definition fadeOutAudio :: "service \<Rightarrow> string \<Rightarrow> real \<Rightarrow> bool \<times> service" where
  "fadeOutAudio s ident duration =
     (case gainNodes s ident of
        None \<Rightarrow> (False, s)
      | Some gain \<Rightarrow>
          (let now = currentTime s
           in (True,
               s\<lparr>gainNodes := (gainNodes s)(ident \<mapsto>
                    gain @ [HoldValueAtTime now, LinearRampToValueAtTime 0 (now + duration)]),
                 timers := timers s @ [(duration * 1000, FadeOutCleanup ident)]\<rparr>)))"

text \<open>
  Running a scheduled callback. The cleanup of \<^verbatim>\<open>stopAudio\<close> stops the source object it
  captured and deletes the entries stored under the id at the time it runs.
\<close>

definition runCallback :: "service \<Rightarrow> callback \<Rightarrow> service" where
  "runCallback s cb =
     (case cb of
        StopCleanup source ident \<Rightarrow>
          s\<lparr>live := live s - {source},
            sources := (sources s)(ident := None),
            gainNodes := (gainNodes s)(ident := None),
            effectNodes := (effectNodes s)(ident := None)\<rparr>
      | FadeOutCleanup ident \<Rightarrow>
          (if sources s ident \<noteq> None then snd (stopAudio s ident 0) else s))"

text \<open>The \<open>n\<close>-th pending timer fires: it leaves the list and its callback runs.\<close>

definition fireTimer :: "service \<Rightarrow> nat \<Rightarrow> service" where
  "fireTimer s n =
     (if n < length (timers s)
      then runCallback (s\<lparr>timers := take n (timers s) @ drop (Suc n) (timers s)\<rparr>) (snd (timers s ! n))
      else s)"

text \<open>The \<^verbatim>\<open>parameters\<close> argument of \<^verbatim>\<open>applyEffect\<close>: every property may be absent.\<close>

record parameters =
  p_frequency :: "real option"
  p_Q :: "real option"
  p_mix :: "real option"
  p_decay :: "real option"
  p_time :: "real option"
  p_feedback :: "real option"
  p_amount :: "real option"
  p_pan :: "real option"

text \<open>\<^verbatim>\<open>if (parameters.x) param.setValueAtTime(parameters.x, now)\<close>: a truthy number.\<close>

definition setIfTruthy :: "real option \<Rightarrow> real \<Rightarrow> audioParam \<Rightarrow> audioParam" where
  "setIfTruthy v now param =
     (case v of None \<Rightarrow> param | Some x \<Rightarrow> if x \<noteq> 0 then param @ [SetValueAtTime x now] else param)"

text \<open>\<^verbatim>\<open>if (parameters.x !== undefined) param.setValueAtTime(f(parameters.x), now)\<close>.\<close>

definition setIfDefined :: "real option \<Rightarrow> (real \<Rightarrow> real) \<Rightarrow> real \<Rightarrow> audioParam \<Rightarrow> audioParam" where
  "setIfDefined v f now param =
     (case v of None \<Rightarrow> param | Some x \<Rightarrow> param @ [SetValueAtTime (f x) now])"

definition applyFilter :: "parameters \<Rightarrow> real \<Rightarrow> filterNode \<Rightarrow> filterNode" where
  "applyFilter ps now node =
     (case node of FilterNode frequency q \<Rightarrow>
        FilterNode (setIfTruthy (p_frequency ps) now frequency) (setIfTruthy (p_Q ps) now q))"

definition applyReverb :: "parameters \<Rightarrow> real \<Rightarrow> reverbNode \<Rightarrow> reverbNode" where
  "applyReverb ps now node =
     (case node of ReverbNode wet dry duration \<Rightarrow>
        ReverbNode (setIfDefined (p_mix ps) (\<lambda>mix. mix) now wet)
                   (setIfDefined (p_mix ps) (\<lambda>mix. 1 - mix) now dry) duration)"

definition applyDelay :: "parameters \<Rightarrow> real \<Rightarrow> delayNode \<Rightarrow> delayNode" where
  "applyDelay ps now node =
     (case node of DelayNode delayTime feedback \<Rightarrow>
        DelayNode (setIfDefined (p_time ps) (\<lambda>t. t) now delayTime)
                  (setIfDefined (p_feedback ps) (\<lambda>f. f) now feedback))"

definition applyPitchShift :: "parameters \<Rightarrow> pitchNode \<Rightarrow> pitchNode" where
  "applyPitchShift ps node =
     (case p_amount ps of None \<Rightarrow> node | Some amount \<Rightarrow> PitchNode (2 powr (amount / 12)))"

definition applySpatialAudio :: "parameters \<Rightarrow> real \<Rightarrow> pannerNode \<Rightarrow> pannerNode" where
  "applySpatialAudio ps now node =
     (case node of PannerNode pan \<Rightarrow> PannerNode (setIfDefined (p_pan ps) (\<lambda>p. p) now pan))"

text \<open>
  \<^verbatim>\<open>applyEffect(id, effectType, parameters)\<close>: false when the id has no effect map or the
  map has no node under \<^verbatim>\<open>effectType\<close>; otherwise the \<^verbatim>\<open>switch\<close> on the effect type.
\<close>

definition applyEffect :: "service \<Rightarrow> string \<Rightarrow> string \<Rightarrow> parameters \<Rightarrow> bool \<times> service" where
  "applyEffect s ident effectType ps =
     (case effectNodes s ident of
        None \<Rightarrow> (False, s)
      | Some m \<Rightarrow>
          if \<not> hasEffect m effectType then (False, s)
          else
            let now = currentTime s;
                m' =
                  (if effectType = ''lowpass'' then m\<lparr>lowpassFx := map_option (applyFilter ps now) (lowpassFx m)\<rparr>
                   else if effectType = ''highpass'' then m\<lparr>highpassFx := map_option (applyFilter ps now) (highpassFx m)\<rparr>
                   else if effectType = ''reverb'' then m\<lparr>reverbFx := map_option (applyReverb ps now) (reverbFx m)\<rparr>
                   else if effectType = ''delay'' then m\<lparr>delayFx := map_option (applyDelay ps now) (delayFx m)\<rparr>
                   else if effectType = ''pitchShift'' then m\<lparr>pitchShiftFx := map_option (applyPitchShift ps) (pitchShiftFx m)\<rparr>
                   else if effectType = ''spatialAudio'' then m\<lparr>spatialAudioFx := map_option (applySpatialAudio ps now) (spatialAudioFx m)\<rparr>
                   else m)
            in (True, s\<lparr>effectNodes := (effectNodes s)(ident \<mapsto> m')\<rparr>))"

section \<open>BoundaryTransitionManager\<close>

text \<open>
  The manager holds the audio service it was constructed with and only calls its methods,
  ignoring what they return. A method of the manager is modelled by the list of calls it
  makes on the service, in order. Numbers that depend on the transition progress are
  \<open>jsnum\<close>s, since the progress is a quotient by \<^verbatim>\<open>transitionRadius\<close>.
\<close>

definition VOLUME_FADE :: string where "VOLUME_FADE = ''volume_fade''"
definition LOWPASS_FILTER :: string where "LOWPASS_FILTER = ''lowpass_filter''"
definition HIGHPASS_FILTER :: string where "HIGHPASS_FILTER = ''highpass_filter''"
definition REVERB_TAIL :: string where "REVERB_TAIL = ''reverb_tail''"
definition PITCH_SHIFT :: string where "PITCH_SHIFT = ''pitch_shift''"
definition DELAY_FEEDBACK :: string where "DELAY_FEEDBACK = ''delay_feedback''"
definition CROSSFADE :: string where "CROSSFADE = ''crossfade''"
definition DOPPLER :: string where "DOPPLER = ''doppler''"
definition SPATIAL_BLEND :: string where "SPATIAL_BLEND = ''spatial_blend''"

record range =
  range_start :: real
  range_end :: real

record advancedSettings =
  lowpassFrequency :: range
  highpassFrequency :: range
  reverbMix :: range
  reverbDecay :: range
  delayFeedback :: range
  delayTime :: range
  pitchShift :: range

text \<open>
  Transition settings. \<open>volume\<close> is not among the defaults: \<^verbatim>\<open>handleCrossfades\<close> reads
  \<^verbatim>\<open>region.settings.volume\<close>, which is present only if the custom settings supplied it.
\<close>

record transitionSettings =
  fadeInLength :: real
  fadeOutLength :: real
  fadeInType :: string
  fadeOutType :: string
  transitionRadius :: real
  blendingEnabled :: bool
  crossfadeOverlap :: bool
  advancedSettings :: advancedSettings
  volume :: "real option"

definition defaultSettings :: transitionSettings where
  "defaultSettings =
     \<lparr>fadeInLength = 1.5, fadeOutLength = 2.0,
      fadeInType = VOLUME_FADE, fadeOutType = VOLUME_FADE,
      transitionRadius = 10, blendingEnabled = True, crossfadeOverlap = True,
      advancedSettings =
        \<lparr>lowpassFrequency = \<lparr>range_start = 20000, range_end = 500\<rparr>,
         highpassFrequency = \<lparr>range_start = 20, range_end = 2000\<rparr>,
         reverbMix = \<lparr>range_start = 0.1, range_end = 0.7\<rparr>,
         reverbDecay = \<lparr>range_start = 1.0, range_end = 3.0\<rparr>,
         delayFeedback = \<lparr>range_start = 0.1, range_end = 0.7\<rparr>,
         delayTime = \<lparr>range_start = 0.25, range_end = 0.5\<rparr>,
         pitchShift = \<lparr>range_start = 0, range_end = - 4\<rparr>\<rparr>,
      volume = None\<rparr>"

text \<open>Values of the object literals the manager passes to the service.\<close>

datatype argval = ABool bool | ANumber jsnum

record playArgs =
  arg_fadeIn :: real
  arg_volume :: jsnum
  arg_loop :: bool
  arg_effects :: "(string \<times> argval) list option"

datatype call =
    PlayAudio string string playArgs
  | FadeOutAudio string real
  | ApplyEffect string string "(string \<times> jsnum) list"
  | SetVolume string jsnum
  | StopAudio string real

text \<open>\<^verbatim>\<open>from + weight * (to - from)\<close>, the interpolation every transition type uses.\<close>

definition interpolate :: "real \<Rightarrow> jsnum \<Rightarrow> real \<Rightarrow> jsnum" where
  "interpolate from weight to = js_add (Num from) (js_mul weight (Num (to - from)))"

text \<open>
  The progress of \<^verbatim>\<open>applyEntryTransition\<close>:
  \<^verbatim>\<open>Math.min(1, Math.max(0, (transitionRadius - distanceToEdge) / transitionRadius))\<close>.
\<close>

definition entryProgress :: "real \<Rightarrow> real \<Rightarrow> jsnum" where
  "entryProgress radius distanceToEdge =
     js_min 1 (js_max 0 (js_div (radius - distanceToEdge) radius))"

definition applyEntryTransition :: "string \<Rightarrow> string \<Rightarrow> transitionSettings \<Rightarrow> real \<Rightarrow> call list" where
  "applyEntryTransition regionId url ts distanceToEdge =
     (let adv = advancedSettings ts;
          progress = entryProgress (transitionRadius ts) distanceToEdge;
          play = (\<lambda>effects. [PlayAudio regionId url
                   \<lparr>arg_fadeIn = fadeInLength ts, arg_volume = progress, arg_loop = True,
                    arg_effects = effects\<rparr>])
      in if fadeInType ts = VOLUME_FADE then play None
         else if fadeInType ts = LOWPASS_FILTER then
           (let startFreq = range_end (lowpassFrequency adv);
                endFreq = range_start (lowpassFrequency adv);
                currentFreq = interpolate startFreq progress endFreq
            in play (Some [(''lowpass'', ABool True), (''lowpassFrequency'', ANumber currentFreq)]))
         else if fadeInType ts = HIGHPASS_FILTER then
           (let hpStartFreq = range_end (highpassFrequency adv);
                hpEndFreq = range_start (highpassFrequency adv);
                hpCurrentFreq = interpolate hpStartFreq progress hpEndFreq
            in play (Some [(''highpass'', ABool True), (''highpassFrequency'', ANumber hpCurrentFreq)]))
         else if fadeInType ts = REVERB_TAIL then
           (let reverbStart = range_end (reverbMix adv);
                reverbEnd = range_start (reverbMix adv);
                currentReverb = interpolate reverbStart progress reverbEnd
            in play (Some [(''reverb'', ABool True), (''reverbMix'', ANumber currentReverb),
                           (''reverbDecay'', ANumber (Num (range_start (reverbDecay adv))))]))
         else if fadeInType ts = PITCH_SHIFT then
           (let pitchStart = range_end (pitchShift adv);
                pitchEnd = range_start (pitchShift adv);
                currentPitch = interpolate pitchStart progress pitchEnd
            in play (Some [(''pitchShift'', ABool True), (''pitchAmount'', ANumber currentPitch)]))
         else if fadeInType ts = DELAY_FEEDBACK then
           (let delayStart = range_end (delayFeedback adv);
                delayEnd = range_start (delayFeedback adv);
                currentDelay = interpolate delayStart progress delayEnd
            in play (Some [(''delay'', ABool True), (''delayFeedback'', ANumber currentDelay),
                           (''delayTime'', ANumber (Num (range_start (delayTime adv))))]))
         else if fadeInType ts = DOPPLER then
           (let dopplerShift =
                  (if js_lt progress (Num 0.5)
                   then js_add (Num 1) (js_mul (js_sub (Num 0.5) progress) (Num 0.1))
                   else Num 1)
            in play (Some [(''pitchShift'', ABool True),
                           (''pitchAmount'', ANumber (js_sub dopplerShift (Num 1)))]))
         else if fadeInType ts = SPATIAL_BLEND then
           (let pan = js_mul (js_cos (js_mul progress (Num pi))) (Num 0.8)
            in play (Some [(''spatialAudio'', ABool True), (''pan'', ANumber pan)]))
         else play None)"

text \<open>
  The progress of \<^verbatim>\<open>applyExitTransition\<close>:
  \<^verbatim>\<open>Math.min(1, Math.max(0, 1 - (distanceToEdge / transitionRadius)))\<close>, computed in
  doubles, since it is compared with the threshold \<^verbatim>\<open>0.05\<close>, which is itself the double
  nearest to one twentieth. The effect parameters interpolated from the progress are left
  exact.
\<close>

definition exitProgress :: "real \<Rightarrow> real \<Rightarrow> jsnum" where
  "exitProgress radius distanceToEdge =
     js_min 1 (js_max 0 (js_round (js_sub (Num 1) (js_round (js_div distanceToEdge radius)))))"

definition teardownThreshold :: real where
  "teardownThreshold = double 0.05"

definition applyExitTransition :: "string \<Rightarrow> transitionSettings \<Rightarrow> real \<Rightarrow> call list" where
  "applyExitTransition regionId ts distanceToEdge =
     (let adv = advancedSettings ts;
          progress = exitProgress (transitionRadius ts) distanceToEdge;
          remaining = js_sub (Num 1) progress;
          stop = (\<lambda>fadeOut. if js_le progress (Num teardownThreshold)
                           then [StopAudio regionId fadeOut] else [])
      in if fadeOutType ts = VOLUME_FADE then [FadeOutAudio regionId (fadeOutLength ts)]
         else if fadeOutType ts = LOWPASS_FILTER then
           (let startFreq = range_start (lowpassFrequency adv);
                endFreq = range_end (lowpassFrequency adv);
                currentFreq = interpolate startFreq remaining endFreq
            in [ApplyEffect regionId ''lowpass'' [(''frequency'', currentFreq), (''Q'', Num 1.0)],
                SetVolume regionId progress] @ stop 0.5)
         else if fadeOutType ts = HIGHPASS_FILTER then
           (let hpStartFreq = range_start (highpassFrequency adv);
                hpEndFreq = range_end (highpassFrequency adv);
                hpCurrentFreq = interpolate hpStartFreq remaining hpEndFreq
            in [ApplyEffect regionId ''highpass'' [(''frequency'', hpCurrentFreq), (''Q'', Num 1.0)],
                SetVolume regionId progress] @ stop 0.5)
         else if fadeOutType ts = REVERB_TAIL then
           (let reverbStart = range_start (reverbMix adv);
                reverbEnd = range_end (reverbMix adv);
                currentReverb = interpolate reverbStart remaining reverbEnd;
                decayStart = range_start (reverbDecay adv);
                decayEnd = range_end (reverbDecay adv);
                currentDecay = interpolate decayStart remaining decayEnd
            in [ApplyEffect regionId ''reverb'' [(''mix'', currentReverb), (''decay'', currentDecay)],
                SetVolume regionId progress] @ stop (fadeOutLength ts * 1.5))
         else if fadeOutType ts = PITCH_SHIFT then
           (let pitchStart = range_start (pitchShift adv);
                pitchEnd = range_end (pitchShift adv);
                currentPitch = interpolate pitchStart remaining pitchEnd
            in [ApplyEffect regionId ''pitchShift'' [(''amount'', currentPitch)],
                SetVolume regionId progress] @ stop (fadeOutLength ts))
         else if fadeOutType ts = DELAY_FEEDBACK then
           (let delayStart = range_start (delayFeedback adv);
                delayEnd = range_end (delayFeedback adv);
                currentDelay = interpolate delayStart remaining delayEnd;
                timeStart = range_start (delayTime adv);
                timeEnd = range_end (delayTime adv);
                currentDelayTime = interpolate timeStart remaining timeEnd
            in [ApplyEffect regionId ''delay'' [(''feedback'', currentDelay), (''time'', currentDelayTime)],
                SetVolume regionId progress] @ stop (fadeOutLength ts * 2))
         else if fadeOutType ts = DOPPLER then
           (let dopplerShift =
                  (if js_lt (Num 0.5) progress
                   then js_sub (Num 1) (js_mul (js_sub progress (Num 0.5)) (Num 0.1))
                   else Num 1)
            in [ApplyEffect regionId ''pitchShift'' [(''amount'', js_sub dopplerShift (Num 1))],
                SetVolume regionId progress] @ stop (fadeOutLength ts))
         else if fadeOutType ts = SPATIAL_BLEND then
           (let pan = js_mul (js_cos (js_mul progress (Num pi))) (Num 0.8)
            in [ApplyEffect regionId ''spatialAudio'' [(''pan'', pan)],
                SetVolume regionId progress] @ stop (fadeOutLength ts))
         else [FadeOutAudio regionId (fadeOutLength ts)])"

text \<open>The manager's own \<^verbatim>\<open>calculateDistance\<close>: Euclidean distance in degrees.\<close>

definition calculateDistance :: "point \<Rightarrow> point \<Rightarrow> real" where
  "calculateDistance point1 point2 =
     sqrt ((lat point2 - lat point1)\<^sup>2 + (lng point2 - lng point1)\<^sup>2)"

record region =
  regionId :: string
  settings :: transitionSettings
  center :: point

text \<open>\<^verbatim>\<open>region.settings.volume || 1.0\<close>.\<close>

definition baseVolume :: "region \<Rightarrow> real" where
  "baseVolume r = (case volume (settings r) of None \<Rightarrow> 1.0 | Some v \<Rightarrow> if v = 0 then 1.0 else v)"

text \<open>The body of the inner loop of \<^verbatim>\<open>handleCrossfades\<close>, for one pair of regions.\<close>

definition crossfadePair :: "region \<Rightarrow> region \<Rightarrow> point \<Rightarrow> call list" where
  "crossfadePair region1 region2 position =
     (if \<not> crossfadeOverlap (settings region1) \<or> \<not> crossfadeOverlap (settings region2) then []
      else
        let distance1 = calculateDistance position (center region1);
            distance2 = calculateDistance position (center region2);
            totalDistance = distance1 + distance2
        in if totalDistance = 0 then []
           else
             let ratio1 = 1 - (distance1 / totalDistance);
                 ratio2 = 1 - (distance2 / totalDistance);
                 baseVolume1 = baseVolume region1;
                 baseVolume2 = baseVolume region2;
                 crossfadeVolume1 = baseVolume1 * (0.7 + 0.3 * ratio1);
                 crossfadeVolume2 = baseVolume2 * (0.7 + 0.3 * ratio2)
             in [SetVolume (regionId region1) (Num crossfadeVolume1),
                 SetVolume (regionId region2) (Num crossfadeVolume2)])"

text \<open>
  \<^verbatim>\<open>handleCrossfades(activeRegions, position)\<close>: \<open>None\<close> is a null or undefined
  \<^verbatim>\<open>activeRegions\<close>. The two nested iterations run over all index pairs \<open>i < j\<close>.
\<close>

definition handleCrossfades :: "region list option \<Rightarrow> point \<Rightarrow> call list" where
  "handleCrossfades activeRegions position =
     (case activeRegions of
        None \<Rightarrow> []
      | Some rs \<Rightarrow>
          if length rs \<le> 1 then []
          else concat (map (\<lambda>i. concat (map (\<lambda>j. crossfadePair (rs ! i) (rs ! j) position)
                                            [i + 1..<length rs]))
                         [0..<length rs]))"

section \<open>Auxiliary definitions\<close>

text \<open>The service as its constructor leaves it, at audio time 0.\<close>

definition initialService :: service where
  "initialService =
     \<lparr>currentTime = 0, nextSource = 0, live = {}, sources = Map.empty,
      gainNodes = Map.empty, effectNodes = Map.empty, timers = []\<rparr>"

definition noOptions :: playOptions where
  "noOptions = \<lparr>opt_loop = None, opt_volume = None, opt_fadeIn = None, opt_effects = None\<rparr>"

definition noParameters :: parameters where
  "noParameters =
     \<lparr>p_frequency = None, p_Q = None, p_mix = None, p_decay = None, p_time = None,
      p_feedback = None, p_amount = None, p_pan = None\<rparr>"

text \<open>
  Whether wiring the effects of an options object runs to its end: no enabled entry of
  \<^verbatim>\<open>options.effects\<close> has an inherited key.
\<close>

fun isWired :: "wiring \<Rightarrow> bool" where
  "isWired (Wired m) = True"
| "isWired (WiringThrew m) = False"

fun wiredMap :: "wiring \<Rightarrow> effectsMap" where
  "wiredMap (Wired m) = m"
| "wiredMap (WiringThrew m) = m"

definition wireOptions :: "playOptions \<Rightarrow> wiring" where
  "wireOptions options =
     (let effects = (case opt_effects options of None \<Rightarrow> [] | Some e \<Rightarrow> e)
      in wireEffects effects effects emptyEffects)"

text \<open>The three maps of the service have the same keys.\<close>

definition aligned :: "service \<Rightarrow> bool" where
  "aligned s \<longleftrightarrow> dom (gainNodes s) = dom (sources s) \<and> dom (effectNodes s) = dom (sources s)"

text \<open>
  The states the service can be in: the constructed one, and those reached by a call of one
  of its methods, by a timer firing, or by audio time passing.
\<close>

inductive reachable :: "service \<Rightarrow> bool" where
  constructed: "reachable initialService"
| time_passes: "reachable s \<Longrightarrow> currentTime s \<le> t \<Longrightarrow> reachable (s\<lparr>currentTime := t\<rparr>)"
| played: "reachable s \<Longrightarrow> reachable (snd (playAudio s ident url options fetched))"
| stopped: "reachable s \<Longrightarrow> reachable (snd (stopAudio s ident fadeOut))"
| volume_set: "reachable s \<Longrightarrow> reachable (snd (setVolume s ident vol))"
| faded_out: "reachable s \<Longrightarrow> reachable (snd (fadeOutAudio s ident duration))"
| effect_applied: "reachable s \<Longrightarrow> reachable (snd (applyEffect s ident effectType ps))"
| timer_fired: "reachable s \<Longrightarrow> reachable (fireTimer s n)"

text \<open>
  What holds in all of them: the maps have the same keys; a stored source was created by
  the service and is stored under one id only; and the source a pending cleanup has captured
  was created by the service and is stored, if at all, under the id of the cleanup.
\<close>

fun timerOk :: "service \<Rightarrow> real \<times> callback \<Rightarrow> bool" where
  "timerOk s (d, StopCleanup source ident) =
     (source < nextSource s \<and> (\<forall>j. sources s j = Some source \<longrightarrow> j = ident))"
| "timerOk s (d, FadeOutCleanup ident) = True"

definition wellFormed :: "service \<Rightarrow> bool" where
  "wellFormed s \<longleftrightarrow>
     aligned s
     \<and> (\<forall>i source. sources s i = Some source \<longrightarrow> source < nextSource s)
     \<and> (\<forall>i j source. sources s i = Some source \<and> sources s j = Some source \<longrightarrow> i = j)
     \<and> (\<forall>t \<in> set (timers s). timerOk s t)"

text \<open>
  A parameter has been changed by a ramp when the last command issued on it is a linear ramp
  that ends after the current time.
\<close>

definition endsWithRamp :: "real \<Rightarrow> audioParam \<Rightarrow> bool" where
  "endsWithRamp now param =
     (param \<noteq> [] \<and> (case last param of LinearRampToValueAtTime v t \<Rightarrow> now < t | _ \<Rightarrow> False))"

text \<open>
  \<open>new\<close> extends \<open>old\<close> by commands that all are \<^verbatim>\<open>setValueAtTime(v, now)\<close>.
\<close>

fun isSetAt :: "real \<Rightarrow> automation \<Rightarrow> bool" where
  "isSetAt now (SetValueAtTime v t) = (t = now)"
| "isSetAt now _ = False"

definition setsAtNow :: "real \<Rightarrow> audioParam \<Rightarrow> audioParam \<Rightarrow> bool" where
  "setsAtNow now old new \<longleftrightarrow>
     take (length old) new = old \<and> list_all (isSetAt now) (drop (length old) new)"

text \<open>The audio parameters of the node stored under a key of an effect map.\<close>

definition nodeParams :: "effectsMap \<Rightarrow> string \<Rightarrow> audioParam list" where
  "nodeParams m effectType =
     (if effectType = ''lowpass'' then (case lowpassFx m of Some (FilterNode f q) \<Rightarrow> [f, q] | None \<Rightarrow> [])
      else if effectType = ''highpass'' then (case highpassFx m of Some (FilterNode f q) \<Rightarrow> [f, q] | None \<Rightarrow> [])
      else if effectType = ''reverb'' then (case reverbFx m of Some (ReverbNode w d l) \<Rightarrow> [w, d] | None \<Rightarrow> [])
      else if effectType = ''delay'' then (case delayFx m of Some (DelayNode t f) \<Rightarrow> [t, f] | None \<Rightarrow> [])
      else if effectType = ''spatialAudio'' then (case spatialAudioFx m of Some (PannerNode p) \<Rightarrow> [p] | None \<Rightarrow> [])
      else [])"

text \<open>The \<^verbatim>\<open>stopAudio\<close> and the \<^verbatim>\<open>fadeOutAudio\<close> calls in a list of calls.\<close>

fun isStopAudio :: "call \<Rightarrow> bool" where
  "isStopAudio (StopAudio i fadeOut) = True"
| "isStopAudio c = False"

fun isFadeOutAudio :: "call \<Rightarrow> bool" where
  "isFadeOutAudio (FadeOutAudio i duration) = True"
| "isFadeOutAudio c = False"

definition stopCalls :: "call list \<Rightarrow> call list" where
  "stopCalls cs = filter isStopAudio cs"

definition fadeOutCalls :: "call list \<Rightarrow> call list" where
  "fadeOutCalls cs = filter isFadeOutAudio cs"

text \<open>States and inputs used as examples.\<close>

definition playedOnce :: service where
  "playedOnce = snd (playAudio initialService ''a'' ''a.mp3'' noOptions True)"

definition lowpassPlaying :: service where
  "lowpassPlaying =
     snd (playAudio initialService ''a'' ''a.mp3''
            (noOptions\<lparr>opt_effects := Some [(''lowpass'', JBool True)]\<rparr>) True)"

text \<open>Options that enable a lowpass filter and, as an effect, the inherited \<^verbatim>\<open>toString\<close>.\<close>

definition brokenOptions :: playOptions where
  "brokenOptions =
     noOptions\<lparr>opt_effects := Some [(''lowpass'', JBool True), (''toString'', JBool True)]\<rparr>"

definition exampleRegion :: "string \<Rightarrow> real \<Rightarrow> real \<Rightarrow> region" where
  "exampleRegion i la lo = \<lparr>regionId = i, settings = defaultSettings, center = \<lparr>lat = la, lng = lo\<rparr>\<rparr>"

text \<open>
  A two-point polygon and a point next to its edge: the longitude of the point is the double
  nearest to one third, written \<^verbatim>\<open>0.3333333333333333\<close>.
\<close>

definition edgeA :: point where "edgeA = \<lparr>lat = 0, lng = 0\<rparr>"
definition edgeB :: point where "edgeB = \<lparr>lat = 3, lng = 1\<rparr>"
definition nearEdge :: point where
  "nearEdge = \<lparr>lat = 1, lng = 6004799503160661 / 18014398509481984\<rparr>"

text \<open>
  A closed ring of four points whose last element is the same object as its first
  (references 0, 1, 2, 3, 0).
\<close>

definition ring :: "ref \<Rightarrow> point" where
  "ring r =
     (if r = 0 then \<lparr>lat = 0, lng = 0\<rparr>
      else if r = 1 then \<lparr>lat = 95, lng = - 5\<rparr>
      else if r = 2 then \<lparr>lat = 97, lng = 0\<rparr>
      else \<lparr>lat = 95, lng = 5\<rparr>)"

text \<open>
  For the analysis of \<^verbatim>\<open>simplifyPolygon\<close>: the distance \<^verbatim>\<open>findFurthestPoint\<close> computes for
  index \<open>i\<close>, one step of its loop, and the recursion tree of \<^verbatim>\<open>simplifySegment\<close> as a
  relation between a segment and the indices whose points it pushes.
\<close>

definition segDist :: "(ref \<Rightarrow> point) \<Rightarrow> ref list \<Rightarrow> nat \<Rightarrow> nat \<Rightarrow> nat \<Rightarrow> real" where
  "segDist h points start end i =
     distanceToLine (lat (h (points ! i))) (lng (h (points ! i)))
       (lat (h (points ! start))) (lng (h (points ! start)))
       (lat (h (points ! end))) (lng (h (points ! end)))"

definition furthestStep :: "(nat \<Rightarrow> real) \<Rightarrow> nat \<Rightarrow> real \<times> nat \<Rightarrow> real \<times> nat" where
  "furthestStep f i acc = (if f i > fst acc then (f i, i) else acc)"

inductive dpKept :: "(ref \<Rightarrow> point) \<Rightarrow> ref list \<Rightarrow> real \<Rightarrow> nat \<Rightarrow> nat \<Rightarrow> nat list \<Rightarrow> bool"
  for h points tolerance where
  leaf: "start < end \<Longrightarrow> \<not> tolerance < fst (findFurthestPoint h points start end)
         \<Longrightarrow> dpKept h points tolerance start end [end]"
| split: "findFurthestPoint h points start end = (D, M) \<Longrightarrow> tolerance < D
         \<Longrightarrow> start < M \<Longrightarrow> M < end
         \<Longrightarrow> dpKept h points tolerance start M K1
         \<Longrightarrow> dpKept h points tolerance M end K2
         \<Longrightarrow> dpKept h points tolerance start end (K1 @ K2)"

section \<open>Rounding to doubles\<close>

lemma pow2_pos: "0 < pow2 e"
  by (simp add: pow2_def)

lemma pow2_powr: "pow2 e = 2 powr of_int e"
proof (cases "0 \<le> e")
  case True
  then show ?thesis by (simp add: pow2_def powr_realpow[symmetric])
next
  case False
  then have "(2::real) powr of_int e = 1 / 2 powr of_int (- e)"
    by (simp add: powr_minus_divide)
  also have "2 powr of_int (- e) = (2::real) ^ nat (- e)"
    using False by (simp add: powr_realpow[symmetric])
  finally show ?thesis using False by (simp add: pow2_def)
qed

lemma floor_log2:
  assumes "pow2 k \<le> \<bar>x\<bar>" "\<bar>x\<bar> < pow2 (k + 1)"
  shows "\<lfloor>log 2 \<bar>x\<bar>\<rfloor> = k"
proof -
  have pos: "0 < \<bar>x\<bar>" using assms(1) pow2_pos[of k] by linarith
  have "of_int k \<le> log 2 \<bar>x\<bar>"
    using assms(1) pos by (simp add: pow2_powr le_log_iff)
  moreover have "log 2 \<bar>x\<bar> < of_int k + 1"
    using assms(2) pos by (simp add: pow2_powr log_less_iff)
  ultimately show ?thesis by linarith
qed

text \<open>
  Evaluating \<open>double\<close>: once the binary exponent \<open>k\<close> of \<open>x\<close> is known, the result is the
  rounded significand times the unit in the last place.
\<close>

lemma double_eval:
  assumes "pow2 k \<le> \<bar>x\<bar>" "\<bar>x\<bar> < pow2 (k + 1)"
  shows "double x = of_int (roundEven (x / pow2 (k - 52))) * pow2 (k - 52)"
proof -
  have "x \<noteq> 0" using assms(1) pow2_pos[of k] by auto
  then show ?thesis by (simp add: double_def floor_log2[OF assms] Let_def)
qed

lemma double_small_integers:
  "double 0 = 0" "double 1 = 1" "double 2 = 2" "double 3 = 3"
  "double (- 1) = - 1" "double (- 2) = - 2" "double (- 3) = - 3"
  using double_eval[of 0 1] double_eval[of 1 2] double_eval[of 1 3]
    double_eval[of 0 "- 1"] double_eval[of 1 "- 2"] double_eval[of 1 "- 3"]
  by (simp_all add: double_def pow2_def roundEven_def)

lemma double_one_third: "double (1 / 3) = 6004799503160661 / 18014398509481984"
  using double_eval[of "- 2" "1 / 3"] by (simp add: pow2_def roundEven_def)

lemma double_minus_two_thirds: "double (- (2 / 3)) = - (6004799503160661 / 9007199254740992)"
  using double_eval[of "- 1" "- (2 / 3)"] by (simp add: pow2_def roundEven_def)

lemma double_third_exact:
  "double (6004799503160661 / 18014398509481984) = 6004799503160661 / 18014398509481984"
  using double_eval[of "- 2" "6004799503160661 / 18014398509481984"]
  by (simp add: pow2_def roundEven_def)

lemma double_third_above:
  "double (3002399751580331 / 9007199254740992) = 3002399751580331 / 9007199254740992"
  using double_eval[of "- 2" "3002399751580331 / 9007199254740992"]
  by (simp add: pow2_def roundEven_def)

lemma double_nineteen_twentieths: "double (19 / 20) = 4278419646001971 / 4503599627370496"
  using double_eval[of "- 1" "19 / 20"] by (simp add: pow2_def roundEven_def)

lemma double_above_twentieth:
  "double (225179981368525 / 4503599627370496) = 225179981368525 / 4503599627370496"
  using double_eval[of "- 5" "225179981368525 / 4503599627370496"]
  by (simp add: pow2_def roundEven_def)

lemma double_one_twentieth: "double (1 / 20) = 3602879701896397 / 72057594037927936"
  using double_eval[of "- 5" "1 / 20"] by (simp add: pow2_def roundEven_def)

lemmas double_values = double_small_integers double_one_third double_minus_two_thirds
  double_third_exact double_third_above double_nineteen_twentieths double_above_twentieth
  double_one_twentieth

text \<open>
  Rounding never turns a number into zero, so the divisor \<open>yj - yi\<close> of the ray-casting test
  is not zero after rounding either.
\<close>

lemma roundEven_nonzero:
  assumes "1 \<le> \<bar>y\<bar>"
  shows "roundEven y \<noteq> 0"
proof (cases "0 \<le> y")
  case True
  then have "1 \<le> y" using assms by linarith
  then have "1 \<le> \<lfloor>y\<rfloor>" by linarith
  then have "\<lfloor>y\<rfloor> \<noteq> 0" "\<lfloor>y\<rfloor> + 1 \<noteq> 0" by linarith+
  then show ?thesis by (simp add: roundEven_def Let_def)
next
  case False
  then have y: "y \<le> - 1" using assms by linarith
  then have f: "\<lfloor>y\<rfloor> \<le> - 1" by linarith
  show ?thesis
  proof (cases "\<lfloor>y\<rfloor> = - 1")
    case True
    then have "y = - 1" using y by linarith
    then have "roundEven y = - 1" unfolding roundEven_def Let_def True by simp
    then show ?thesis by simp
  next
    case False
    then have "\<lfloor>y\<rfloor> \<le> - 2" using f by linarith
    then have "\<lfloor>y\<rfloor> \<noteq> 0" "\<lfloor>y\<rfloor> + 1 \<noteq> 0" by linarith+
    then show ?thesis by (simp add: roundEven_def Let_def)
  qed
qed

lemma double_nonzero:
  assumes "x \<noteq> 0"
  shows "double x \<noteq> 0"
proof -
  define k where "k = \<lfloor>log 2 \<bar>x\<bar>\<rfloor>"
  have pos: "0 < \<bar>x\<bar>" using assms by simp
  have "of_int k \<le> log 2 \<bar>x\<bar>" unfolding k_def by simp
  then have "2 powr of_int k \<le> \<bar>x\<bar>" using pos by (simp add: le_log_iff)
  then have lo: "pow2 k \<le> \<bar>x\<bar>" by (simp add: pow2_powr)
  have "pow2 k = pow2 (k - 52) * 2 ^ 52"
    by (simp add: pow2_powr powr_diff powr_realpow[symmetric] del: powr_numeral)
  moreover have "pow2 (k - 52) * 1 \<le> pow2 (k - 52) * 2 ^ 52"
    using pow2_pos[of "k - 52"] by (intro mult_left_mono) simp_all
  ultimately have "pow2 (k - 52) * 1 \<le> \<bar>x\<bar>"
    using lo by linarith
  then have "1 \<le> \<bar>x\<bar> / pow2 (k - 52)"
    using pow2_pos[of "k - 52"] by (simp add: field_simps)
  then have "1 \<le> \<bar>x / pow2 (k - 52)\<bar>"
    using pow2_pos[of "k - 52"] by simp
  from roundEven_nonzero[OF this] show ?thesis
    using assms pow2_pos[of "k - 52"] by (simp add: double_def Let_def k_def)
qed

section \<open>Geometry: degenerate polygons\<close>

lemma short_polygon_cases:
  assumes "length polygon < 2"
  obtains "polygon = []" | a where "polygon = [a]"
proof (cases polygon)
  case Nil
  then show ?thesis using that by simp
next
  case (Cons a xs)
  then have "xs = []" using assms by simp
  then show ?thesis using Cons that by simp
qed

lemma isPointInPolygon_short:
  assumes "length polygon < 2"
  shows "\<not> isPointInPolygon p polygon"
  using assms
proof (cases polygon rule: short_polygon_cases)
  case 1
  then show ?thesis by (simp add: isPointInPolygon_def)
next
  case (2 a)
  then show ?thesis
    by (simp add: isPointInPolygon_def isPointInPolygon_step_def intersect_def)
qed

text \<open>With two vertices the loop tests the one edge twice, once from either end.\<close>

lemma isPointInPolygon_two:
  "isPointInPolygon p [a, b] \<longleftrightarrow> intersect p a b \<noteq> intersect p b a"
proof -
  have "[0..<2] = [0, 1]" by (simp add: upt_rec)
  then show ?thesis
    by (auto simp: isPointInPolygon_def isPointInPolygon_step_def)
qed

lemma distanceToLine_nonneg: "0 \<le> distanceToLine x y x1 y1 x2 y2"
  by (simp add: distanceToLine_def Let_def)

lemma running_minimum_not_negative:
  "\<not> js_negative acc \<Longrightarrow> (\<And>i. 0 \<le> f i)
     \<Longrightarrow> \<not> js_negative (fold (\<lambda>i m. js_min (f i) m) xs acc)"
proof (induction xs arbitrary: acc)
  case Nil
  then show ?case by simp
next
  case (Cons x xs)
  have "\<not> js_negative (js_min (f x) acc)"
    using Cons.prems(1) Cons.prems(2)[of x] by (cases acc) (auto simp: min_def)
  then show ?case using Cons by simp
qed

lemma getDistanceToBoundaryEdge_outside:
  "\<not> isPointInPolygon p polygon \<Longrightarrow> \<not> js_negative (getDistanceToBoundaryEdge p polygon)"
  unfolding getDistanceToBoundaryEdge_def Let_def
  using running_minimum_not_negative[of PosInf "edgeDistance p polygon" "[0..<length polygon]"]
  by (simp add: edgeDistance_def Let_def distanceToLine_nonneg)

lemma nearEdge_intersects_one_way:
  "\<not> intersect nearEdge edgeA edgeB" "intersect nearEdge edgeB edgeA"
  by (simp_all add: intersect_def intercept_def edgeA_def edgeB_def nearEdge_def
        fadd_def fsub_def fmul_def fdiv_def double_values)

text \<open>
  Claim C10, as the source has it. For an empty polygon and for a polygon of one vertex,
  \<open>isPointInPolygon\<close> is false for every point and \<open>getDistanceToBoundaryEdge\<close> is never
  negative. For a polygon of two vertices \<open>isPointInPolygon\<close> is true exactly when the
  latitude of the point lies between those of the vertices and its longitude is below one of
  the two computed intercepts of the edge but not below the other; only then is the distance
  negative.
\<close>

theorem degenerate_polygon_inside:
  "(length polygon < 2 \<longrightarrow>
      \<not> isPointInPolygon p polygon \<and> \<not> js_negative (getDistanceToBoundaryEdge p polygon))
   \<and> (isPointInPolygon p [a, b] \<longleftrightarrow>
        ((lat a > lat p) \<noteq> (lat b > lat p))
        \<and> ((lng p < intercept p a b) \<noteq> (lng p < intercept p b a)))
   \<and> (js_negative (getDistanceToBoundaryEdge p [a, b]) \<longrightarrow> isPointInPolygon p [a, b])"
proof (intro conjI impI)
  assume "length polygon < 2"
  then show "\<not> isPointInPolygon p polygon"
    and "\<not> js_negative (getDistanceToBoundaryEdge p polygon)"
    using isPointInPolygon_short getDistanceToBoundaryEdge_outside by blast+
next
  show "isPointInPolygon p [a, b] \<longleftrightarrow>
        ((lat a > lat p) \<noteq> (lat b > lat p))
        \<and> ((lng p < intercept p a b) \<noteq> (lng p < intercept p b a))"
    unfolding isPointInPolygon_two by (auto simp: intersect_def Let_def)
next
  assume "js_negative (getDistanceToBoundaryEdge p [a, b])"
  then show "isPointInPolygon p [a, b]"
    using getDistanceToBoundaryEdge_outside by blast
qed

text \<open>
  Claim C10 fails as stated. For the polygon of the two points (0, 0) and (3, 1) and the point
  at latitude 1 and longitude \<^verbatim>\<open>0.3333333333333333\<close>, the intercept of the edge is computed
  as \<^verbatim>\<open>0.3333333333333333\<close> from one end and as \<^verbatim>\<open>0.33333333333333337\<close> from the other, so
  \<open>isPointInPolygon\<close> is true, and \<open>getDistanceToBoundaryEdge\<close> is negative.
\<close>

theorem degenerate_polygon_inside_counterexample:
  "length [edgeA, edgeB] < 3
   \<and> isPointInPolygon nearEdge [edgeA, edgeB]
   \<and> js_negative (getDistanceToBoundaryEdge nearEdge [edgeA, edgeB])"
proof -
  have inside: "isPointInPolygon nearEdge [edgeA, edgeB]"
    by (simp add: isPointInPolygon_two nearEdge_intersects_one_way)
  have "[0..<2] = [0, 1]" by (simp add: upt_rec)
  then have "js_negative (getDistanceToBoundaryEdge nearEdge [edgeA, edgeB])"
    using inside
    by (simp add: getDistanceToBoundaryEdge_def Let_def edgeDistance_def distanceToLine_def
          edgeA_def edgeB_def nearEdge_def)
  with inside show ?thesis by simp
qed

text \<open>
  Claim C10, at the polygon of the one point (0, 0) and the point (1, 0), and at the
  two-point polygon above with the point (1, 0), which is to the left of both intercepts.
\<close>

theorem degenerate_polygon_inside_witness:
  "length [edgeA] < 2
   \<and> \<not> isPointInPolygon \<lparr>lat = 1, lng = 0\<rparr> [edgeA]
   \<and> \<not> js_negative (getDistanceToBoundaryEdge \<lparr>lat = 1, lng = 0\<rparr> [edgeA])
   \<and> \<not> isPointInPolygon \<lparr>lat = 1, lng = 0\<rparr> [edgeA, edgeB]
   \<and> \<not> js_negative (getDistanceToBoundaryEdge \<lparr>lat = 1, lng = 0\<rparr> [edgeA, edgeB])"
proof -
  have i: "intercept \<lparr>lat = 1, lng = 0\<rparr> edgeA edgeB = 6004799503160661 / 18014398509481984"
    "intercept \<lparr>lat = 1, lng = 0\<rparr> edgeB edgeA = 3002399751580331 / 9007199254740992"
    by (simp_all add: intercept_def edgeA_def edgeB_def fadd_def fsub_def fmul_def fdiv_def
          double_values)
  show ?thesis
    using degenerate_polygon_inside[of "[edgeA]" "\<lparr>lat = 1, lng = 0\<rparr>" edgeA edgeB]
    by (auto simp: i)
qed

section \<open>Geometry: polygon simplification\<close>

lemma furthestStep_apply:
  "furthestStep f i acc = (if f i > fst acc then (f i, i) else acc)"
  by (simp add: furthestStep_def)

lemma findFurthestPoint_fold:
  "findFurthestPoint h points start end =
     fold (furthestStep (segDist h points start end)) [start + 1..<end] (0, 0)"
  unfolding findFurthestPoint_def
  by (rule arg_cong[where f = "\<lambda>g. fold g _ _"])
     (auto simp: fun_eq_iff furthestStep_def segDist_def Let_def)

lemma furthest_fold_ge:
  "fold (furthestStep f) xs acc = (D, M) \<Longrightarrow> fst acc \<le> D \<and> (\<forall>x\<in>set xs. f x \<le> D)"
proof (induction xs arbitrary: acc)
  case Nil then show ?case by auto
next
  case (Cons x xs)
  from Cons.IH[OF Cons.prems[simplified]]
  show ?case by (auto simp: furthestStep_apply split: if_splits)
qed

lemma furthest_fold_unchanged:
  "\<forall>x\<in>set xs. f x \<le> fst acc \<Longrightarrow> fold (furthestStep f) xs acc = acc"
  by (induction xs arbitrary: acc) (auto simp: furthestStep_apply)

lemma furthest_fold_below:
  "\<forall>x\<in>set xs. f x < B \<Longrightarrow> fst acc < B \<Longrightarrow> fst (fold (furthestStep f) xs acc) < B"
  by (induction xs arbitrary: acc) (auto simp: furthestStep_apply)

lemma furthest_fold_found:
  assumes "\<forall>y\<in>set ys. f y < f m" "\<forall>z\<in>set zs. f z \<le> f m" "fst acc < f m"
  shows "fold (furthestStep f) (ys @ m # zs) acc = (f m, m)"
proof -
  have "fst (fold (furthestStep f) ys acc) < f m"
    using assms(1,3) by (rule furthest_fold_below)
  then have "furthestStep f m (fold (furthestStep f) ys acc) = (f m, m)"
    by (simp add: furthestStep_apply)
  then show ?thesis
    using assms(2) by (simp add: furthest_fold_unchanged)
qed

lemma furthest_fold_char:
  "fold (furthestStep f) xs acc = (D, M) \<Longrightarrow> fst acc < D \<Longrightarrow>
     \<exists>ys zs. xs = ys @ M # zs \<and> f M = D \<and> (\<forall>y\<in>set ys. f y < D) \<and> (\<forall>z\<in>set zs. f z \<le> D)"
proof (induction xs arbitrary: acc)
  case Nil then show ?case by auto
next
  case (Cons x xs)
  show ?case
  proof (cases "f x > fst acc")
    case True
    then have "furthestStep f x acc = (f x, x)"
      by (simp add: furthestStep_apply)
    then have run: "fold (furthestStep f) xs (f x, x) = (D, M)"
      using Cons.prems(1) by simp
    show ?thesis
    proof (cases "f x < D")
      case True
      from Cons.IH[OF run] True obtain ys zs where
        "xs = ys @ M # zs" "f M = D" "\<forall>y\<in>set ys. f y < D" "\<forall>z\<in>set zs. f z \<le> D"
        by auto
      then have "x # xs = (x # ys) @ M # zs \<and> f M = D \<and> (\<forall>y\<in>set (x # ys). f y < D) \<and> (\<forall>z\<in>set zs. f z \<le> D)"
        using True by simp
      then show ?thesis by blast
    next
      case False
      from furthest_fold_ge[OF run] have ge: "f x \<le> D" "\<forall>z\<in>set xs. f z \<le> D" by auto
      with False have eq: "f x = D" by simp
      then have "fold (furthestStep f) xs (f x, x) = (f x, x)"
        using ge(2) by (intro furthest_fold_unchanged) simp
      with run eq have "M = x" by simp
      then have "x # xs = [] @ M # xs \<and> f M = D \<and> (\<forall>y\<in>set []. f y < D) \<and> (\<forall>z\<in>set xs. f z \<le> D)"
        using eq ge(2) by simp
      then show ?thesis by blast
    qed
  next
    case False
    then have "furthestStep f x acc = acc"
      by (simp add: furthestStep_apply)
    then have run: "fold (furthestStep f) xs acc = (D, M)"
      using Cons.prems(1) by simp
    from Cons.IH[OF run Cons.prems(2)] obtain ys zs where
      "xs = ys @ M # zs" "f M = D" "\<forall>y\<in>set ys. f y < D" "\<forall>z\<in>set zs. f z \<le> D"
      by auto
    then have "x # xs = (x # ys) @ M # zs \<and> f M = D \<and> (\<forall>y\<in>set (x # ys). f y < D) \<and> (\<forall>z\<in>set zs. f z \<le> D)"
      using False Cons.prems(2) by auto
    then show ?thesis by blast
  qed
qed

lemma upt_split_at:
  assumes "[a..<b] = ys @ m # zs"
  shows "a \<le> m \<and> m < b \<and> ys = [a..<m] \<and> zs = [Suc m..<b]"
proof -
  have m: "m \<in> set [a..<b]" using assms by simp
  then have am: "a \<le> m" "m < b" by auto
  then have "[a..<b] = [a..<m] @ m # [Suc m..<b]"
    by (metis upt_add_eq_append[of a m "b - m"] le_add_diff_inverse less_imp_le_nat upt_conv_Cons)
  with assms have "ys @ m # zs = [a..<m] @ m # [Suc m..<b]" by simp
  moreover have "length ys = length [a..<m]"
  proof -
    have "distinct (ys @ m # zs)" using assms by (metis distinct_upt)
    have "(ys @ m # zs) ! length ys = m" by simp
    then have "[a..<b] ! length ys = m" using assms by simp
    moreover have "length ys < length [a..<b]" using assms by simp
    ultimately have "a + length ys = m" by (simp)
    then show ?thesis using am by simp
  qed
  ultimately show ?thesis using am by simp
qed

lemma findFurthestPoint_nonneg: "0 \<le> fst (findFurthestPoint h points start end)"
proof -
  obtain D M where r: "fold (furthestStep (segDist h points start end)) [start + 1..<end] (0, 0) = (D, M)"
    by (cases "fold (furthestStep (segDist h points start end)) [start + 1..<end] (0, 0)")
  from furthest_fold_ge[OF r] show ?thesis
    unfolding findFurthestPoint_fold r by simp
qed

lemma findFurthestPoint_char:
  assumes "findFurthestPoint h points start end = (D, M)" "0 < D"
  shows "start < M \<and> M < end \<and> segDist h points start end M = D
         \<and> (\<forall>i. start < i \<and> i < M \<longrightarrow> segDist h points start end i < D)
         \<and> (\<forall>i. M < i \<and> i < end \<longrightarrow> segDist h points start end i \<le> D)"
proof -
  from assms(1) have r: "fold (furthestStep (segDist h points start end)) [start + 1..<end] (0, 0) = (D, M)"
    by (simp add: findFurthestPoint_fold)
  from furthest_fold_char[OF r] assms(2) obtain ys zs where
    d: "[start + 1..<end] = ys @ M # zs" and fm: "segDist h points start end M = D"
    and ys: "\<forall>y\<in>set ys. segDist h points start end y < D"
    and zs: "\<forall>z\<in>set zs. segDist h points start end z \<le> D"
    by auto
  from upt_split_at[OF d] have s: "start + 1 \<le> M" "M < end" "ys = [start + 1..<M]" "zs = [Suc M..<end]"
    by auto
  show ?thesis using s fm ys zs by auto
qed

lemma findFurthestPoint_found:
  assumes "start < M" "M < end" "0 < segDist h points start end M"
    "\<forall>i. start < i \<and> i < M \<longrightarrow> segDist h points start end i < segDist h points start end M"
    "\<forall>i. M < i \<and> i < end \<longrightarrow> segDist h points start end i \<le> segDist h points start end M"
  shows "findFurthestPoint h points start end = (segDist h points start end M, M)"
proof -
  have "[start + 1..<end] = [start + 1..<M] @ M # [Suc M..<end]"
    using assms(1,2)
    by (metis Suc_eq_plus1 Suc_leI less_imp_le_nat upt_add_eq_append[of "start + 1" M "end - M"] le_add_diff_inverse upt_conv_Cons)
  then show ?thesis
    unfolding findFurthestPoint_fold
    using furthest_fold_found[of "[start + 1..<M]" "segDist h points start end" M "[Suc M..<end]" "(0, 0)"]
      assms(3,4,5) by simp
qed

lemma findFurthestPoint_empty: "end \<le> start + 1 \<Longrightarrow> findFurthestPoint h points start end = (0, 0)"
  by (simp add: findFurthestPoint_fold)

lemma dpKept_shape:
  "dpKept h points tolerance start end K \<Longrightarrow>
     start < end \<and> K \<noteq> [] \<and> last K = end \<and> sorted_wrt (<) K \<and> set K \<subseteq> {start<..end}"
proof (induction rule: dpKept.induct)
  case (leaf start "end")
  then show ?case by simp
next
  case (split start "end" D M K1 K2)
  have "x < y" if "x \<in> set K1" "y \<in> set K2" for x y
  proof -
    have "x \<le> M" "M < y" using that split.IH by auto
    then show ?thesis by simp
  qed
  moreover have "set (K1 @ K2) \<subseteq> {start<..end}"
    using split.IH split.hyps(3,4) by auto
  ultimately show ?case
    using split.IH split.hyps(3,4) by (simp add: sorted_wrt_append)
qed

lemma dpKept_exists:
  "0 \<le> tolerance \<Longrightarrow> start < end \<Longrightarrow> \<exists>K. dpKept h points tolerance start end K"
proof (induction "end - start" arbitrary: start "end" rule: less_induct)
  case less
  obtain D M where ff: "findFurthestPoint h points start end = (D, M)"
    by (cases "findFurthestPoint h points start end")
  show ?case
  proof (cases "tolerance < D")
    case False
    then show ?thesis using less.prems(2) ff dpKept.leaf[of start "end" tolerance h points] by auto
  next
    case True
    then have "0 < D" using less.prems(1) by simp
    from findFurthestPoint_char[OF ff this] have m: "start < M" "M < end" by auto
    have "\<exists>K. dpKept h points tolerance start M K"
      by (rule less.hyps) (use m less.prems(1) in auto)
    then obtain K1 where k1: "dpKept h points tolerance start M K1" ..
    have "\<exists>K. dpKept h points tolerance M end K"
      by (rule less.hyps) (use m less.prems(1) in auto)
    then obtain K2 where k2: "dpKept h points tolerance M end K2" ..
    from dpKept.split[OF ff True m k1 k2] show ?thesis by blast
  qed
qed

lemma simplifySegment_run1:
  "dpKept h points tolerance start end K \<Longrightarrow> distinct points \<Longrightarrow> end < length points
     \<Longrightarrow> set result \<inter> (!) points ` set K = {}
     \<Longrightarrow> simplifySegment h points tolerance start end result = Some (result @ map ((!) points) K)"
proof (induction arbitrary: result rule: dpKept.induct)
  case (leaf start "end")
  obtain D M where ff: "findFurthestPoint h points start end = (D, M)"
    by (cases "findFurthestPoint h points start end")
  with leaf(2) have "\<not> tolerance < D" by simp
  moreover have "points ! end \<notin> set result" using leaf.prems(3) by auto
  ultimately show ?case
    by (subst simplifySegment.simps) (simp add: ff)
next
  case (split start "end" D M K1 K2)
  from dpKept_shape[OF split(5)] have s1: "set K1 \<subseteq> {start<..M}" by simp
  from dpKept_shape[OF split(6)] have s2: "set K2 \<subseteq> {M<..end}" by simp
  have r1: "simplifySegment h points tolerance start M result = Some (result @ map ((!) points) K1)"
    using split.IH(1)[of result] split.prems split(4) by auto
  have disj: "(!) points ` set K1 \<inter> (!) points ` set K2 = {}"
  proof (rule ccontr)
    assume "\<not> ?thesis"
    then obtain i j where ij: "i \<in> set K1" "j \<in> set K2" "points ! i = points ! j" by auto
    then have "i \<le> M" "M < j" "j \<le> end"
      using s1 s2 by auto
    then have "i < length points" "j < length points" "i \<noteq> j"
      using split.prems(2) by auto
    with ij(3) split.prems(1) show False by (simp add: nth_eq_iff_index_eq)
  qed
  have r2: "simplifySegment h points tolerance M end (result @ map ((!) points) K1)
            = Some ((result @ map ((!) points) K1) @ map ((!) points) K2)"
    using split.IH(2)[of "result @ map ((!) points) K1"] split.prems disj by auto
  show ?case
    by (subst simplifySegment.simps) (simp add: split(1) split(2) r1 r2)
qed

lemma nth_embed: "j < length ks \<Longrightarrow> (pre @ x # ks @ post) ! (length pre + Suc j) = ks ! j"
  by (simp add: nth_append)

lemma segDist_transfer:
  "Q ! a = P ! i \<Longrightarrow> Q ! u = P ! s \<Longrightarrow> Q ! v = P ! e \<Longrightarrow> segDist h Q u v a = segDist h P s e i"
  by (simp add: segDist_def)

lemma sorted_wrt_nth_less_last:
  "sorted_wrt (<) (K :: nat list) \<Longrightarrow> j < length K - 1 \<Longrightarrow> K ! j < last K"
  by (cases "K = []") (auto simp: last_conv_nth intro: sorted_wrt_nth_less)

lemma simplifySegment_run2:
  "dpKept h points tolerance start end K \<Longrightarrow> 0 \<le> tolerance \<Longrightarrow> distinct points
     \<Longrightarrow> end < length points
     \<Longrightarrow> set result \<inter> (!) points ` set K = {}
     \<Longrightarrow> simplifySegment h (pre @ points ! start # map ((!) points) K @ post) tolerance
           (length pre) (length pre + length K) result
         = Some (result @ map ((!) points) K)"
proof (induction arbitrary: result pre post rule: dpKept.induct)
  case (leaf start "end")
  let ?Q = "pre @ points ! start # points ! end # post"
  have ff: "findFurthestPoint h ?Q (length pre) (Suc (length pre)) = (0, 0)"
    by (rule findFurthestPoint_empty) simp
  have "?Q ! Suc (length pre) = points ! end"
    using nth_embed[of 0 "[points ! end]" pre "points ! start" post] by simp
  moreover have "points ! end \<notin> set result" using leaf.prems(4) by auto
  ultimately have "simplifySegment h ?Q tolerance (length pre) (Suc (length pre)) result
                   = Some (result @ [points ! end])"
    using leaf.prems(1) by (subst simplifySegment.simps) (simp add: ff)
  then show ?case by simp
next
  case (split start "end" D M K1 K2)
  let ?P = "(!) points"
  let ?ks = "map ?P (K1 @ K2)"
  let ?Q = "pre @ points ! start # ?ks @ post"
  let ?u = "length pre"
  let ?w = "length pre + length K1"
  let ?v = "length pre + length (K1 @ K2)"
  from dpKept_shape[OF split.hyps(5)] have k1: "K1 \<noteq> []" "last K1 = M" "sorted_wrt (<) K1"
    "set K1 \<subseteq> {start<..M}" by auto
  from dpKept_shape[OF split.hyps(6)] have k2: "K2 \<noteq> []" "last K2 = end" "sorted_wrt (<) K2"
    "set K2 \<subseteq> {M<..end}" by auto
  have n1: "0 < length K1" and n2: "0 < length K2" using k1(1) k2(1) by auto
  have D0: "0 < D" using split.hyps(2) split.prems(1) by simp
  note ch = findFurthestPoint_char[OF split.hyps(1) D0]
  have qu: "?Q ! ?u = points ! start" by simp
  have qmid: "?Q ! (?u + Suc j) = ?ks ! j" if "j < length K1 + length K2" for j
    using nth_embed[of j ?ks pre "points ! start" post] that by simp
  have qw: "?Q ! ?w = points ! M"
  proof -
    have "?Q ! (?u + Suc (length K1 - 1)) = ?ks ! (length K1 - 1)"
      by (rule qmid) (use n1 n2 in linarith)
    also have "\<dots> = points ! (K1 ! (length K1 - 1))" using n1 by (simp add: nth_append)
    also have "K1 ! (length K1 - 1) = M" using k1(1,2) by (simp add: last_conv_nth)
    finally show ?thesis using n1 by simp
  qed
  have qv: "?Q ! ?v = points ! end"
  proof -
    have "?Q ! (?u + Suc (length K1 + length K2 - 1)) = ?ks ! (length K1 + length K2 - 1)"
      by (rule qmid) (use n1 n2 in linarith)
    also have "\<dots> = points ! (K2 ! (length K2 - 1))"
    proof -
      have "length K1 + length K2 - 1 = length K1 + (length K2 - 1)" using n2 by linarith
      then have "length K1 + length K2 - 1 = length (map ?P K1) + (length K2 - 1)" by simp
      then have "?ks ! (length K1 + length K2 - 1) = map ?P K2 ! (length K2 - 1)"
        by (simp only: map_append nth_append_length_plus)
      then show ?thesis using n2 by simp
    qed
    also have "K2 ! (length K2 - 1) = end" using k2(1,2) by (simp add: last_conv_nth)
    finally show ?thesis using n1 by simp
  qed
  have dw: "segDist h ?Q ?u ?v ?w = D"
    using segDist_transfer[OF qw qu qv, of h] ch by simp
  have before: "segDist h ?Q ?u ?v a < D" if "?u < a" "a < ?w" for a
  proof -
    define j where "j = a - ?u - 1"
    have a: "a = ?u + Suc j" and j: "j < length K1 - 1" using that by (auto simp: j_def)
    have "?Q ! a = ?ks ! j" unfolding a by (rule qmid) (use j in linarith)
    also have "\<dots> = points ! (K1 ! j)"
    proof -
      have "j < length K1" using j by linarith
      then show ?thesis by (simp add: nth_append)
    qed
    finally have qa: "?Q ! a = points ! (K1 ! j)" .
    have "K1 ! j < M" using sorted_wrt_nth_less_last[OF k1(3) j] k1(2) by simp
    moreover have "start < K1 ! j"
    proof -
      have "j < length K1" using j by linarith
      then have "K1 ! j \<in> set K1" by (rule nth_mem)
      then show ?thesis using k1(4) by auto
    qed
    ultimately have "segDist h points start end (K1 ! j) < D" using ch by blast
    then show ?thesis using segDist_transfer[OF qa qu qv, of h] by simp
  qed
  have after: "segDist h ?Q ?u ?v a \<le> D" if "?w < a" "a < ?v" for a
  proof -
    define j where "j = a - ?w - 1"
    have a: "a = ?u + Suc (length K1 + j)" and j: "j < length K2 - 1" using that by (auto simp: j_def)
    have "?Q ! a = ?ks ! (length K1 + j)" unfolding a by (rule qmid) (use j in linarith)
    also have "\<dots> = points ! (K2 ! j)"
    proof -
      have "?ks ! (length K1 + j) = map ?P K2 ! j"
        using nth_append_length_plus[of "map ?P K1" "map ?P K2" j] by simp
      then show ?thesis using j by simp
    qed
    finally have qa: "?Q ! a = points ! (K2 ! j)" .
    have "K2 ! j < end" using sorted_wrt_nth_less_last[OF k2(3) j] k2(2) by simp
    moreover have "M < K2 ! j"
    proof -
      have "j < length K2" using j by linarith
      then have "K2 ! j \<in> set K2" by (rule nth_mem)
      then show ?thesis using k2(4) by auto
    qed
    ultimately have "segDist h points start end (K2 ! j) \<le> D" using ch by blast
    then show ?thesis using segDist_transfer[OF qa qu qv, of h] by simp
  qed
  have ff: "findFurthestPoint h ?Q ?u ?v = (D, ?w)"
    using findFurthestPoint_found[of ?u ?w ?v h ?Q] n1 n2 dw D0 before after by simp
  have disj: "?P ` set K1 \<inter> ?P ` set K2 = {}"
  proof (rule ccontr)
    assume "\<not> ?thesis"
    then obtain i j where ij: "i \<in> set K1" "j \<in> set K2" "points ! i = points ! j" by auto
    then have "i \<le> M" "M < j" "j \<le> end"
      using k1(4) k2(4) by auto
    then have "i < length points" "j < length points" "i \<noteq> j"
      using split.prems(3) by auto
    with ij(3) split.prems(2) show False by (simp add: nth_eq_iff_index_eq)
  qed
  have r1: "simplifySegment h ?Q tolerance ?u ?w result = Some (result @ map ?P K1)"
    using split.IH(1)[of result pre "map ?P K2 @ post"] split.prems split.hyps(4) by auto
  have K1eq: "K1 = butlast K1 @ [M]" using k1(1,2) by (metis append_butlast_last_id)
  have Qeq: "?Q = (pre @ points ! start # map ?P (butlast K1)) @ points ! M # map ?P K2 @ post"
    by (subst (1) K1eq) simp
  have len: "length (pre @ points ! start # map ?P (butlast K1)) = ?w" using n1 by simp
  have r2: "simplifySegment h ?Q tolerance ?w ?v (result @ map ?P K1)
            = Some ((result @ map ?P K1) @ map ?P K2)"
    using split.IH(2)[of "result @ map ?P K1" "pre @ points ! start # map ?P (butlast K1)" post]
      split.prems disj
    unfolding Qeq[symmetric] len by (auto simp: add.assoc)
  have "simplifySegment h ?Q tolerance ?u ?v result = Some ((result @ map ?P K1) @ map ?P K2)"
    by (subst simplifySegment.simps)
       (simp only: ff prod.case split.hyps(2) if_True r1 Option.bind.simps r2)
  then show ?case by simp
qed

lemma simplifySegment_returns:
  "0 \<le> tolerance \<Longrightarrow> start < end
     \<Longrightarrow> \<exists>r. simplifySegment h points tolerance start end result = Some r"
proof (induction "end - start" arbitrary: start "end" result rule: less_induct)
  case less
  obtain D M where ff: "findFurthestPoint h points start end = (D, M)"
    by (cases "findFurthestPoint h points start end")
  show ?case
  proof (cases "tolerance < D")
    case False
    then show ?thesis by (subst simplifySegment.simps) (simp add: ff)
  next
    case True
    then have "0 < D" using less.prems(1) by simp
    from findFurthestPoint_char[OF ff this] have m: "start < M" "M < end" by auto
    have "\<exists>r. simplifySegment h points tolerance start M result = Some r"
      by (rule less.hyps) (use m less.prems(1) in auto)
    then obtain r1 where r1: "simplifySegment h points tolerance start M result = Some r1" ..
    have "\<exists>r. simplifySegment h points tolerance M end r1 = Some r"
      by (rule less.hyps) (use m less.prems(1) in auto)
    then obtain r2 where r2: "simplifySegment h points tolerance M end r1 = Some r2" ..
    have "simplifySegment h points tolerance start end result = Some r2"
      by (subst simplifySegment.simps)
         (simp only: ff prod.case True if_True r1 Option.bind.simps r2)
    then show ?thesis ..
  qed
qed

lemma simplifySegment_extends:
  "simplifySegment h points tolerance start end result = Some r
     \<Longrightarrow> (\<exists>suffix. r = result @ suffix) \<and> points ! end \<in> set r"
proof (induction rule: simplifySegment.raw_induct[rotated 1, consumes 1])
  case (1 simplifySegment' h points tolerance start "end" result r)
  obtain D M where ff: "findFurthestPoint h points start end = (D, M)"
    by (cases "findFurthestPoint h points start end")
  show ?case
  proof (cases "tolerance < D")
    case False
    then show ?thesis using 1(2) ff by (auto split: if_splits)
  next
    case True
    with 1(2) ff obtain r1 where
      r1: "simplifySegment' h points tolerance start M result = Some r1"
      and r2: "simplifySegment' h points tolerance M end r1 = Some r"
      by (auto simp: bind_eq_Some_conv)
    from 1(1)[OF r1] 1(1)[OF r2] show ?thesis by auto
  qed
qed

lemma simplifySegment_diverges:
  "tolerance < 0 \<Longrightarrow> simplifySegment h points tolerance start end result = None"
proof (rule ccontr)
  assume neg: "tolerance < 0" and "simplifySegment h points tolerance start end result \<noteq> None"
  then obtain r where "simplifySegment h points tolerance start end result = Some r" by auto
  then have "\<not> tolerance < 0"
  proof (induction rule: simplifySegment.raw_induct[rotated 1, consumes 1])
    case (1 simplifySegment' h points tolerance start "end" result r)
    obtain D M where ff: "findFurthestPoint h points start end = (D, M)"
      by (cases "findFurthestPoint h points start end")
    show ?case
    proof
      assume t: "tolerance < 0"
      have "0 \<le> D" using findFurthestPoint_nonneg[of h points start "end"] ff by simp
      with t have "tolerance < D" by simp
      with 1(2) ff obtain r1 where "simplifySegment' h points tolerance start M result = Some r1"
        by (auto simp: bind_eq_Some_conv)
      from 1(1)[OF this] t show False by simp
    qed
  qed
  with neg show False by simp
qed

lemma simplifyPolygon_diverges:
  "tolerance < 0 \<Longrightarrow> 2 < length points \<Longrightarrow> simplifyPolygon h points tolerance = None"
  by (simp add: simplifyPolygon_def simplifySegment_diverges)

lemma simplifyPolygon_returns:
  "0 \<le> tolerance \<Longrightarrow> \<exists>S. simplifyPolygon h points tolerance = Some S"
  using simplifySegment_returns[of tolerance 0 "length points - 1" h points "[points ! 0]"]
  by (auto simp: simplifyPolygon_def)

lemma simplifyPolygon_first_last:
  assumes "simplifyPolygon h points tolerance = Some S" "points \<noteq> []"
  shows "hd points \<in> set S \<and> last points \<in> set S"
proof (cases "length points \<le> 2")
  case True
  then show ?thesis using assms by (simp add: simplifyPolygon_def)
next
  case False
  then have "simplifySegment h points tolerance 0 (length points - 1) [points ! 0] = Some S"
    using assms(1) by (simp add: simplifyPolygon_def)
  from simplifySegment_extends[OF this] show ?thesis
    using assms(2) by (auto simp: hd_conv_nth last_conv_nth)
qed

lemma simplifyPolygon_idem_nonneg:
  assumes "distinct points" "0 \<le> tolerance" "simplifyPolygon h points tolerance = Some S"
  shows "simplifyPolygon h S tolerance = Some S"
proof (cases "length points \<le> 2")
  case True
  then show ?thesis using assms(3) by (auto simp: simplifyPolygon_def)
next
  case False
  then have n: "0 < length points - 1" "length points - 1 < length points" by auto
  from dpKept_exists[OF assms(2) n(1)] obtain K where
    K: "dpKept h points tolerance 0 (length points - 1) K" by blast
  from dpKept_shape[OF K] have sh: "K \<noteq> []" "set K \<subseteq> {0<..length points - 1}" by auto
  have fresh: "set [points ! 0] \<inter> (!) points ` set K = {}"
  proof (rule ccontr)
    assume "\<not> ?thesis"
    then obtain j where j: "j \<in> set K" "points ! 0 = points ! j" by auto
    then have "0 < j" "j < length points" "0 < length points" using sh(2) n by auto
    with j(2) assms(1) show False by (simp add: nth_eq_iff_index_eq)
  qed
  have "simplifySegment h points tolerance 0 (length points - 1) [points ! 0]
        = Some ([points ! 0] @ map ((!) points) K)"
    by (rule simplifySegment_run1[OF K assms(1) n(2) fresh])
  then have S: "S = points ! 0 # map ((!) points) K"
    using assms(3) False by (simp add: simplifyPolygon_def)
  show ?thesis
  proof (cases "length S \<le> 2")
    case True
    then show ?thesis by (simp add: simplifyPolygon_def)
  next
    case False
    have "simplifySegment h ([] @ points ! 0 # map ((!) points) K @ []) tolerance
            (length ([] :: ref list)) (length ([] :: ref list) + length K) [points ! 0]
          = Some ([points ! 0] @ map ((!) points) K)"
      by (rule simplifySegment_run2[OF K assms(2) assms(1) n(2) fresh])
    then have "simplifySegment h S tolerance 0 (length S - 1) [S ! 0] = Some S"
      by (simp add: S)
    then show ?thesis using False by (simp add: simplifyPolygon_def)
  qed
qed

text \<open>With a negative tolerance the function returns only the arrays it leaves untouched.\<close>

lemma simplifyPolygon_idem:
  assumes "distinct points" "simplifyPolygon h points tolerance = Some S"
  shows "simplifyPolygon h S tolerance = Some S"
proof (cases "0 \<le> tolerance")
  case True
  then show ?thesis using assms by (intro simplifyPolygon_idem_nonneg)
next
  case False
  then have neg: "tolerance < 0" by simp
  have "length points \<le> 2"
  proof (rule ccontr)
    assume "\<not> length points \<le> 2"
    then have "simplifyPolygon h points tolerance = None"
      using neg by (intro simplifyPolygon_diverges) simp_all
    with assms(2) show False by simp
  qed
  then show ?thesis using assms(2) by (auto simp: simplifyPolygon_def)
qed

text \<open>
  Comparisons of the distances \<^verbatim>\<open>distanceToLine\<close> returns with a non-negative number, for
  evaluating \<open>simplifyPolygon\<close> on examples.
\<close>

lemma sqrt_less_number: "0 \<le> c \<Longrightarrow> (sqrt x < c) = (x < c\<^sup>2)"
  by (metis real_sqrt_less_iff real_sqrt_abs abs_of_nonneg)

lemma number_less_scaled_sqrt: "0 \<le> c \<Longrightarrow> (c < sqrt x * 111000) = ((c / 111000)\<^sup>2 < x)"
proof -
  assume c: "0 \<le> c"
  then have nn: "0 \<le> c / 111000" by simp
  have "(c < sqrt x * 111000) = (c / 111000 < sqrt x)" by (simp add: field_simps)
  also have "\<dots> = (sqrt ((c / 111000)\<^sup>2) < sqrt x)" using nn by simp
  also have "\<dots> = ((c / 111000)\<^sup>2 < x)" by (rule real_sqrt_less_iff)
  finally show ?thesis .
qed

lemma small_ranges:
  "[1..<4] = [1, 2, 3]" "[2..<4] = [2, 3]" "[3..<4] = [3]" "[1..<3] = [1, 2]" "[2..<3] = [2]"
  "[1..<2] = [1]"
  by (simp_all add: upt_rec)

text \<open>
  Claim C7, as the source has it. Whenever \<open>simplifyPolygon\<close> returns on a non-empty array,
  its output contains the first and the last input point; for a tolerance that is not negative
  it always returns; and on an array of pairwise distinct point objects it is idempotent
  whenever it returns.
\<close>

theorem simplifyPolygon_distinct_idempotent:
  "(\<forall>S. simplifyPolygon h points tolerance = Some S \<and> points \<noteq> []
          \<longrightarrow> hd points \<in> set S \<and> last points \<in> set S)
   \<and> (0 \<le> tolerance \<longrightarrow> (\<exists>S. simplifyPolygon h points tolerance = Some S))
   \<and> (distinct points \<longrightarrow>
         (\<forall>S. simplifyPolygon h points tolerance = Some S
               \<longrightarrow> simplifyPolygon h S tolerance = Some S))"
  using simplifyPolygon_first_last[of h points tolerance]
    simplifyPolygon_returns[of tolerance h points]
    simplifyPolygon_idem[of points h tolerance]
  by blast

text \<open>
  Claim C7 fails as stated. On the closed ring whose last element is the same object as its
  first, with the tolerance 333000 (three coordinate units), the first pass keeps the points
  0, 1, 2, 3 and leaves out the closing point, which is already in the result; the second
  pass then measures point 2 against the segment from 1 to 3 and drops it.
\<close>

theorem simplifyPolygon_idempotent_counterexample:
  "simplifyPolygon ring [0, 1, 2, 3, 0] 333000 = Some [0, 1, 2, 3]
   \<and> simplifyPolygon ring [0, 1, 2, 3] 333000 = Some [0, 1, 3]"
  by (simp add: simplifyPolygon_def simplifySegment.simps findFurthestPoint_def ring_def
        distanceToLine_def small_ranges Let_def number_less_scaled_sqrt sqrt_less_number)

text \<open>
  Claim C7, at the four distinct points of the ring: one pass gives the points 0, 1, 3, and
  a second pass returns them unchanged.
\<close>

theorem simplifyPolygon_distinct_idempotent_witness:
  "0 \<le> (333000 :: real) \<and> distinct [0, 1, 2, 3 :: nat] \<and> [0, 1, 2, 3 :: nat] \<noteq> []
   \<and> simplifyPolygon ring [0, 1, 2, 3] 333000 = Some [0, 1, 3]
   \<and> simplifyPolygon ring [0, 1, 3] 333000 = Some [0, 1, 3]
   \<and> hd [0, 1, 2, 3] \<in> set [0, 1, 3 :: nat] \<and> last [0, 1, 2, 3] \<in> set [0, 1, 3 :: nat]"
proof -
  have run: "simplifyPolygon ring [0, 1, 2, 3] 333000 = Some [0, 1, 3]"
    by (simp add: simplifyPolygon_def simplifySegment.simps findFurthestPoint_def ring_def
          distanceToLine_def small_ranges Let_def number_less_scaled_sqrt sqrt_less_number)
  show ?thesis
    using simplifyPolygon_distinct_idempotent[of ring "[0, 1, 2, 3]" 333000] run by simp
qed


section \<open>EnhancedAudioService: reachable states\<close>

text \<open>The three maps keep the same keys through every operation of the service.\<close>

lemma aligned_initial: "aligned initialService"
  by (simp add: aligned_def initialService_def)

lemma playAudio_not_fetched: "playAudio s ident url options False = (False, s)"
  by (simp add: playAudio_def Let_def)

text \<open>
  What \<open>playAudio\<close> does whenever the file has been fetched and decoded, whether it then
  returns true or false.
\<close>

lemma playAudio_fetched:
  "sources (snd (playAudio s ident url options True)) = (sources s)(ident \<mapsto> nextSource s)"
  "nextSource (snd (playAudio s ident url options True)) = Suc (nextSource s)"
  "timers (snd (playAudio s ident url options True)) = timers s"
  "currentTime (snd (playAudio s ident url options True)) = currentTime s"
  "dom (gainNodes (snd (playAudio s ident url options True))) = insert ident (dom (gainNodes s))"
  "dom (effectNodes (snd (playAudio s ident url options True))) = insert ident (dom (effectNodes s))"
  "effectNodes (snd (playAudio s ident url options True)) ident = Some (wiredMap (wireOptions options))"
  by (simp_all add: playAudio_def wireOptions_def Let_def split: wiring.splits)

lemma playAudio_live:
  "live (snd (playAudio s ident url options True))
     = (if isWired (wireOptions options) then insert (nextSource s) (live s) else live s)"
  by (simp add: playAudio_def wireOptions_def Let_def split: wiring.splits)

lemma playAudio_result:
  "fst (playAudio s ident url options True)
     \<longleftrightarrow> isWired (wireOptions options) \<and> 0 \<le> currentTime s
         \<and> 0 \<le> currentTime s + (case opt_fadeIn options of None \<Rightarrow> 0.5 | Some f \<Rightarrow> f)"
  by (simp add: playAudio_def wireOptions_def Let_def split: wiring.splits)

lemma playAudio_gain:
  "gainNodes (snd (playAudio s ident url options True)) ident =
     Some (if \<not> isWired (wireOptions options) \<or> currentTime s < 0 then [SetValue 0]
           else if currentTime s + (case opt_fadeIn options of None \<Rightarrow> 0.5 | Some f \<Rightarrow> f) < 0
           then [SetValue 0, SetValueAtTime 0 (currentTime s)]
           else [SetValue 0, SetValueAtTime 0 (currentTime s),
                 LinearRampToValueAtTime (case opt_volume options of None \<Rightarrow> 1 | Some v \<Rightarrow> v)
                   (currentTime s + (case opt_fadeIn options of None \<Rightarrow> 0.5 | Some f \<Rightarrow> f))])"
  by (cases "opt_volume options")
     (simp_all add: playAudio_def wireOptions_def Let_def split: wiring.splits)

lemma aligned_playAudio: "aligned s \<Longrightarrow> aligned (snd (playAudio s ident url options fetched))"
  by (cases fetched) (simp_all add: aligned_def playAudio_fetched playAudio_not_fetched)

lemma aligned_stopAudio: "aligned s \<Longrightarrow> aligned (snd (stopAudio s ident fadeOut))"
  by (auto simp: aligned_def stopAudio_def Let_def split: option.splits)

lemma aligned_setVolume: "aligned s \<Longrightarrow> aligned (snd (setVolume s ident vol))"
  by (auto simp: aligned_def setVolume_def Let_def split: option.splits)

lemma aligned_fadeOutAudio: "aligned s \<Longrightarrow> aligned (snd (fadeOutAudio s ident duration))"
  by (auto simp: aligned_def fadeOutAudio_def Let_def split: option.splits)

lemma aligned_applyEffect: "aligned s \<Longrightarrow> aligned (snd (applyEffect s ident effectType ps))"
  by (auto simp: aligned_def applyEffect_def Let_def split: option.splits)

lemma aligned_runCallback: "aligned s \<Longrightarrow> aligned (runCallback s cb)"
proof (cases cb)
  case (StopCleanup source ident)
  assume "aligned s"
  then show ?thesis unfolding StopCleanup by (auto simp: aligned_def runCallback_def)
next
  case (FadeOutCleanup ident)
  assume "aligned s"
  then show ?thesis unfolding FadeOutCleanup
    using aligned_stopAudio[of s ident 0] by (simp add: runCallback_def)
qed

lemma aligned_fireTimer: "aligned s \<Longrightarrow> aligned (fireTimer s n)"
proof -
  assume a: "aligned s"
  have "aligned (s\<lparr>timers := ts\<rparr>)" for ts using a by (simp add: aligned_def)
  then show ?thesis using a by (simp add: fireTimer_def aligned_runCallback)
qed

text \<open>The properties of reachable states.\<close>

lemma timerOk_cong:
  assumes "sources s' = sources s" "nextSource s' = nextSource s"
  shows "timerOk s' t = timerOk s t"
proof (cases t)
  case (Pair d cb)
  show ?thesis
  proof (cases cb)
    case (StopCleanup x i)
    have "timerOk s' t = (x < nextSource s' \<and> (\<forall>j. sources s' j = Some x \<longrightarrow> j = i))"
      unfolding Pair StopCleanup by (rule timerOk.simps(1))
    also have "\<dots> = (x < nextSource s \<and> (\<forall>j. sources s j = Some x \<longrightarrow> j = i))"
      by (simp only: assms)
    also have "\<dots> = timerOk s t"
      unfolding Pair StopCleanup by (rule timerOk.simps(1)[symmetric])
    finally show ?thesis .
  next
    case (FadeOutCleanup i)
    show ?thesis unfolding Pair FadeOutCleanup by (simp only: timerOk.simps)
  qed
qed

lemma wellFormed_initial: "wellFormed initialService"
  by (simp add: wellFormed_def aligned_def initialService_def)

lemma wellFormed_time: "wellFormed s \<Longrightarrow> wellFormed (s\<lparr>currentTime := t\<rparr>)"
  by (simp add: wellFormed_def aligned_def timerOk_cong[of "s\<lparr>currentTime := t\<rparr>" s])

lemma wellFormed_playAudio:
  assumes "wellFormed s"
  shows "wellFormed (snd (playAudio s ident url options fetched))"
proof (cases fetched)
  case False
  then show ?thesis using assms by (simp add: playAudio_not_fetched)
next
  case True
  let ?s' = "snd (playAudio s ident url options fetched)"
  have src: "sources ?s' = (sources s)(ident \<mapsto> nextSource s)"
    and nxt: "nextSource ?s' = Suc (nextSource s)"
    and tm: "timers ?s' = timers s"
    using True by (simp_all add: playAudio_fetched)
  have old: "source < nextSource s" if "sources s i = Some source" for i source
    using assms that by (auto simp: wellFormed_def)
  have a: "aligned ?s'" using assms aligned_playAudio by (simp add: wellFormed_def)
  have b: "\<forall>i source. sources ?s' i = Some source \<longrightarrow> source < nextSource ?s'"
    unfolding src nxt using old by (auto simp: less_Suc_eq)
  have c: "\<forall>i j source. sources ?s' i = Some source \<and> sources ?s' j = Some source \<longrightarrow> i = j"
  proof (intro allI impI)
    fix i j source
    assume h: "sources ?s' i = Some source \<and> sources ?s' j = Some source"
    show "i = j"
    proof (cases "source = nextSource s")
      case True
      then show ?thesis using h old[of i source] old[of j source] unfolding src
        by (auto split: if_splits)
    next
      case False
      then have "sources s i = Some source" "sources s j = Some source"
        using h unfolding src by (auto split: if_splits)
      then show ?thesis using assms by (auto simp: wellFormed_def)
    qed
  qed
  have d: "\<forall>t \<in> set (timers ?s'). timerOk ?s' t"
  proof
    fix t assume "t \<in> set (timers ?s')"
    then have ok: "timerOk s t" using assms tm by (simp add: wellFormed_def)
    show "timerOk ?s' t"
    proof (cases t)
      case (Pair d cb)
      show ?thesis
      proof (cases cb)
        case (StopCleanup source i)
        then show ?thesis using ok Pair by (auto simp: src nxt split: if_splits)
      next
        case (FadeOutCleanup i)
        then show ?thesis using Pair by simp
      qed
    qed
  qed
  show ?thesis using a b c d by (simp add: wellFormed_def)
qed

lemma wellFormed_stopAudio:
  assumes "wellFormed s"
  shows "wellFormed (snd (stopAudio s ident fadeOut))"
proof (cases "\<exists>source gain. sources s ident = Some source \<and> gainNodes s ident = Some gain")
  case False
  then have "snd (stopAudio s ident fadeOut) = s"
    by (auto simp: stopAudio_def split: option.splits)
  then show ?thesis using assms by simp
next
  case True
  then obtain source gain where sg: "sources s ident = Some source" "gainNodes s ident = Some gain"
    by blast
  let ?s' = "snd (stopAudio s ident fadeOut)"
  have src: "sources ?s' = sources s" and nxt: "nextSource ?s' = nextSource s"
    and tm: "timers ?s' = timers s @ [(fadeOut * 1000, StopCleanup source ident)]"
    using sg by (simp_all add: stopAudio_def Let_def)
  have new: "timerOk s (fadeOut * 1000, StopCleanup source ident)"
    using assms sg(1) by (auto simp: wellFormed_def)
  have "aligned ?s'" using assms aligned_stopAudio by (simp add: wellFormed_def)
  moreover have "\<forall>t \<in> set (timers ?s'). timerOk ?s' t"
    unfolding tm using assms new by (auto simp: wellFormed_def timerOk_cong[OF src nxt])
  ultimately show ?thesis
    using assms unfolding wellFormed_def src nxt by blast
qed

lemma wellFormed_same_sources:
  assumes "wellFormed s" "aligned s'" "sources s' = sources s" "nextSource s' = nextSource s"
    "set (timers s') \<subseteq> set (timers s)"
  shows "wellFormed s'"
  using assms unfolding wellFormed_def
  by (auto simp: timerOk_cong[OF assms(3,4)])

lemma wellFormed_setVolume: "wellFormed s \<Longrightarrow> wellFormed (snd (setVolume s ident vol))"
  by (rule wellFormed_same_sources[of s])
     (auto simp: wellFormed_def aligned_def setVolume_def Let_def split: option.splits)

lemma wellFormed_applyEffect: "wellFormed s \<Longrightarrow> wellFormed (snd (applyEffect s ident effectType ps))"
  by (rule wellFormed_same_sources[of s])
     (auto simp: wellFormed_def aligned_def applyEffect_def Let_def split: option.splits)

lemma wellFormed_fadeOutAudio:
  assumes "wellFormed s"
  shows "wellFormed (snd (fadeOutAudio s ident duration))"
proof (cases "gainNodes s ident")
  case None
  then show ?thesis using assms by (simp add: fadeOutAudio_def)
next
  case (Some gain)
  let ?s' = "snd (fadeOutAudio s ident duration)"
  have src: "sources ?s' = sources s" and nxt: "nextSource ?s' = nextSource s"
    and tm: "timers ?s' = timers s @ [(duration * 1000, FadeOutCleanup ident)]"
    using Some by (simp_all add: fadeOutAudio_def Let_def)
  have "aligned ?s'" using assms Some
    by (auto simp: wellFormed_def aligned_def fadeOutAudio_def Let_def)
  moreover have "\<forall>t \<in> set (timers ?s'). timerOk ?s' t"
    unfolding tm using assms by (auto simp: wellFormed_def timerOk_cong[OF src nxt])
  ultimately show ?thesis
    using assms unfolding wellFormed_def src nxt by blast
qed

lemma wellFormed_drop_timer:
  "wellFormed s \<Longrightarrow> wellFormed (s\<lparr>timers := take n (timers s) @ drop (Suc n) (timers s)\<rparr>)"
  by (rule wellFormed_same_sources[of s])
     (auto simp: wellFormed_def aligned_def dest: in_set_takeD in_set_dropD)

lemma wellFormed_runCallback:
  assumes "wellFormed s" "timerOk s (d, cb)"
  shows "wellFormed (runCallback s cb)"
proof (cases cb)
  case (FadeOutCleanup ident)
  then show ?thesis using assms(1) wellFormed_stopAudio[of s ident 0]
    by (simp add: runCallback_def)
next
  case (StopCleanup source ident)
  let ?s' = "runCallback s cb"
  have src: "sources ?s' = (sources s)(ident := None)" and nxt: "nextSource ?s' = nextSource s"
    and tm: "timers ?s' = timers s"
    and gn: "gainNodes ?s' = (gainNodes s)(ident := None)"
    and en: "effectNodes ?s' = (effectNodes s)(ident := None)"
    using StopCleanup by (simp_all add: runCallback_def)
  have only: "\<forall>j. sources s j = Some source \<longrightarrow> j = ident"
    using assms(2) StopCleanup by simp
  have a: "aligned ?s'" using assms(1) unfolding aligned_def wellFormed_def src gn en by auto
  have b: "\<forall>i x. sources ?s' i = Some x \<longrightarrow> x < nextSource ?s'"
    unfolding src nxt using assms(1) by (auto simp: wellFormed_def split: if_splits)
  have c: "\<forall>i j x. sources ?s' i = Some x \<and> sources ?s' j = Some x \<longrightarrow> i = j"
    unfolding src using assms(1) by (auto simp: wellFormed_def split: if_splits)
  have d: "\<forall>t \<in> set (timers ?s'). timerOk ?s' t"
  proof
    fix t assume "t \<in> set (timers ?s')"
    then have ok: "timerOk s t" using assms(1) tm by (simp add: wellFormed_def)
    show "timerOk ?s' t"
    proof (cases t)
      case (Pair d' cb')
      show ?thesis
      proof (cases cb')
        case (StopCleanup x i)
        then show ?thesis using ok Pair by (auto simp: src nxt split: if_splits)
      next
        case (FadeOutCleanup i)
        then show ?thesis using Pair by simp
      qed
    qed
  qed
  show ?thesis using a b c d by (simp add: wellFormed_def)
qed

lemma wellFormed_fireTimer:
  assumes "wellFormed s"
  shows "wellFormed (fireTimer s n)"
proof (cases "n < length (timers s)")
  case False
  then show ?thesis using assms by (simp add: fireTimer_def)
next
  case True
  let ?s0 = "s\<lparr>timers := take n (timers s) @ drop (Suc n) (timers s)\<rparr>"
  have w: "wellFormed ?s0" using assms by (rule wellFormed_drop_timer)
  have "timerOk s (timers s ! n)" using assms True by (simp add: wellFormed_def)
  then have "timerOk ?s0 (fst (timers s ! n), snd (timers s ! n))"
    by (simp add: timerOk_cong[of ?s0 s])
  from wellFormed_runCallback[OF w this] show ?thesis
    using True by (simp add: fireTimer_def)
qed

lemma reachable_wellFormed: "reachable s \<Longrightarrow> wellFormed s"
  by (induction rule: reachable.induct)
     (simp_all add: wellFormed_initial wellFormed_time wellFormed_playAudio wellFormed_stopAudio
        wellFormed_setVolume wellFormed_fadeOutAudio wellFormed_applyEffect wellFormed_fireTimer)

lemma reachable_active_source:
  assumes "reachable s" "sources s ident = Some source"
  shows "aligned s \<and> source < nextSource s \<and> gainNodes s ident \<noteq> None"
proof -
  have w: "wellFormed s" using assms(1) by (rule reachable_wellFormed)
  then have "aligned s" "source < nextSource s"
    using assms(2) by (auto simp: wellFormed_def)
  moreover have "gainNodes s ident \<noteq> None"
    using \<open>aligned s\<close> assms(2) by (auto simp: aligned_def domIff)
  ultimately show ?thesis by simp
qed



section \<open>EnhancedAudioService: starting and stopping\<close>

text \<open>
  Wiring runs to its end exactly when no enabled entry of the effects has an inherited key.
\<close>

lemma addEffect_None:
  "addEffect effects (k, v) m = None \<longleftrightarrow> truthy v \<and> k \<in> set inheritedKeys"
  by (auto simp: addEffect_def inheritedKeys_def)

lemma wireEffects_isWired:
  "isWired (wireEffects effects entries m)
     \<longleftrightarrow> (\<forall>(k, v) \<in> set entries. truthy v \<longrightarrow> k \<notin> set inheritedKeys)"
proof (induction entries arbitrary: m)
  case Nil
  then show ?case by simp
next
  case (Cons entry entries)
  obtain k v where e: "entry = (k, v)" by (cases entry)
  show ?case
  proof (cases "addEffect effects (k, v) m")
    case None
    then show ?thesis using addEffect_None[of effects k v m] by (simp add: e)
  next
    case (Some m')
    then have "\<not> (truthy v \<and> k \<in> set inheritedKeys)"
      using addEffect_None[of effects k v m] by simp
    then show ?thesis using Some Cons.IH[of m'] by (auto simp: e)
  qed
qed

lemma wireOptions_isWired:
  "isWired (wireOptions options)
     \<longleftrightarrow> (\<forall>(k, v) \<in> set (case opt_effects options of None \<Rightarrow> [] | Some e \<Rightarrow> e).
            truthy v \<longrightarrow> k \<notin> set inheritedKeys)"
  unfolding wireOptions_def Let_def by (rule wireEffects_isWired)

lemma wireOptions_noOptions: "wireOptions noOptions = Wired emptyEffects"
  by (simp add: wireOptions_def noOptions_def)

lemma wireOptions_brokenOptions:
  "wireOptions brokenOptions
     = WiringThrew (emptyEffects\<lparr>lowpassFx := Some (FilterNode [SetValue 20000] [SetValue 1])\<rparr>)"
  by (simp add: wireOptions_def brokenOptions_def noOptions_def addEffect_def inheritedKeys_def
        createLowpassFilter_def numberOr_def)

lemma playedOnce_simps:
  "sources playedOnce = [''a'' \<mapsto> 0]" "live playedOnce = {0}" "nextSource playedOnce = 1"
  "gainNodes playedOnce = [''a'' \<mapsto> [SetValue 0, SetValueAtTime 0 0, LinearRampToValueAtTime 1 0.5]]"
  "effectNodes playedOnce = [''a'' \<mapsto> emptyEffects]"
  "timers playedOnce = []" "currentTime playedOnce = 0"
  by (simp_all add: playedOnce_def playAudio_def initialService_def noOptions_def Let_def)

text \<open>
  Claim C1, as the source has it. \<open>playAudio\<close> does not look whether the id is active.
  When fetching or decoding fails it returns false and the service is unchanged. Otherwise,
  for an id that already has a source, it creates a new source and stores it, a new gain node
  and a new effect map under the id, whatever it returns afterwards, and it stops no source.
  It returns true exactly when, in addition, wiring the effects does not throw and the backend
  accepts the two times of the fade-in (neither is negative); then the new source has been
  started and the gain of the new node ramps to the volume. When wiring the effects throws it
  returns false: the new source is stored under the id but has not been started, and the
  effect map holds the effects wired until then.
\<close>

theorem playAudio_on_active_id:
  assumes "sources s ident = Some old" "old < nextSource s"
    and "r = playAudio s ident url options fetched"
    and "fadeIn = (case opt_fadeIn options of None \<Rightarrow> 0.5 | Some f \<Rightarrow> f)"
    and "vol = (case opt_volume options of None \<Rightarrow> 1 | Some v \<Rightarrow> v)"
  shows "(\<not> fetched \<longrightarrow> r = (False, s))
         \<and> (fetched \<longrightarrow>
              sources (snd r) ident = Some (nextSource s)
              \<and> nextSource s \<noteq> old
              \<and> live s \<subseteq> live (snd r)
              \<and> effectNodes (snd r) ident = Some (wiredMap (wireOptions options))
              \<and> gainNodes (snd r) ident \<in>
                  {Some [SetValue 0], Some [SetValue 0, SetValueAtTime 0 (currentTime s)],
                   Some [SetValue 0, SetValueAtTime 0 (currentTime s),
                         LinearRampToValueAtTime vol (currentTime s + fadeIn)]}
              \<and> (fst r \<longleftrightarrow> isWired (wireOptions options) \<and> 0 \<le> currentTime s
                                 \<and> 0 \<le> currentTime s + fadeIn)
              \<and> (fst r \<longrightarrow>
                    nextSource s \<in> live (snd r)
                    \<and> gainNodes (snd r) ident
                        = Some [SetValue 0, SetValueAtTime 0 (currentTime s),
                                LinearRampToValueAtTime vol (currentTime s + fadeIn)])
              \<and> (isWired (wireOptions options) \<longleftrightarrow>
                   (\<forall>(k, v) \<in> set (case opt_effects options of None \<Rightarrow> [] | Some e \<Rightarrow> e).
                      truthy v \<longrightarrow> k \<notin> set inheritedKeys))
              \<and> (isWired (wireOptions options) \<longrightarrow> nextSource s \<in> live (snd r))
              \<and> (\<not> isWired (wireOptions options) \<longrightarrow>
                    live (snd r) = live s \<and> gainNodes (snd r) ident = Some [SetValue 0]))"
proof (cases fetched)
  case False
  then show ?thesis using assms(3) by (simp add: playAudio_not_fetched)
next
  case True
  have r: "r = playAudio s ident url options True" using assms(3) True by simp
  show ?thesis
    unfolding r assms(4,5)
    using True assms(2) wireOptions_isWired[of options]
    by (simp add: playAudio_fetched playAudio_live playAudio_result playAudio_gain) blast
qed

text \<open>
  Claim C1 fails as stated. After one successful \<open>playAudio\<close> for the id \<open>a\<close>, a second one
  returns true, the entry of \<open>a\<close> in \<open>sources\<close> changes from source 0 to source 1, and both
  sources are live.
\<close>

theorem playAudio_already_active_counterexample:
  "sources playedOnce ''a'' = Some 0
   \<and> fst (playAudio playedOnce ''a'' ''a.mp3'' noOptions True) = True
   \<and> sources (snd (playAudio playedOnce ''a'' ''a.mp3'' noOptions True)) ''a'' = Some 1
   \<and> live (snd (playAudio playedOnce ''a'' ''a.mp3'' noOptions True)) = {0, 1}"
  by (auto simp add: playedOnce_simps playAudio_def noOptions_def Let_def)

text \<open>
  Claim C1, at the service that has played \<open>a\<close> once: a second \<open>playAudio\<close> whose effects
  name \<^verbatim>\<open>toString\<close> returns false, and yet \<open>a\<close> now has source 1, which has not been
  started, a new gain node, and an effect map that holds the lowpass filter.
\<close>

theorem playAudio_on_active_id_witness:
  "sources playedOnce ''a'' = Some 0 \<and> 0 < nextSource playedOnce
   \<and> \<not> fst (playAudio playedOnce ''a'' ''a.mp3'' brokenOptions True)
   \<and> sources (snd (playAudio playedOnce ''a'' ''a.mp3'' brokenOptions True)) ''a'' = Some 1
   \<and> live (snd (playAudio playedOnce ''a'' ''a.mp3'' brokenOptions True)) = {0}
   \<and> gainNodes (snd (playAudio playedOnce ''a'' ''a.mp3'' brokenOptions True)) ''a''
       = Some [SetValue 0]
   \<and> effectNodes (snd (playAudio playedOnce ''a'' ''a.mp3'' brokenOptions True)) ''a''
       = Some (emptyEffects\<lparr>lowpassFx := Some (FilterNode [SetValue 20000] [SetValue 1])\<rparr>)"
  using playAudio_on_active_id[of playedOnce "''a''" 0
          "playAudio playedOnce ''a'' ''a.mp3'' brokenOptions True" "''a.mp3''" brokenOptions True
          "case opt_fadeIn brokenOptions of None \<Rightarrow> 0.5 | Some f \<Rightarrow> f"
          "case opt_volume brokenOptions of None \<Rightarrow> 1 | Some v \<Rightarrow> v"]
  by (simp add: playedOnce_simps wireOptions_brokenOptions)

text \<open>
  Claim C2, as the source has it. A \<open>playAudio\<close> for an id whose \<open>stopAudio\<close> cleanup is
  still pending does not cancel it: the timer stays scheduled. When it fires it stops the
  source that \<open>stopAudio\<close> captured, so the newly started source keeps playing, and it deletes
  the entries stored under the id, which by then are those of the new source. (The new source
  has been started whenever wiring its effects did not throw, so whenever \<open>playAudio\<close>
  returned true.)
\<close>

theorem restart_before_cleanup:
  assumes "sources s ident = Some old" "gainNodes s ident = Some gain" "old < nextSource s"
    and "s1 = snd (stopAudio s ident fadeOut)"
    and "s2 = snd (playAudio s1 ident url options True)"
    and "s3 = fireTimer s2 (length (timers s))"
  shows "timers s2 = timers s @ [(fadeOut * 1000, StopCleanup old ident)]
         \<and> sources s2 ident = Some (nextSource s)
         \<and> timers s3 = timers s
         \<and> sources s3 ident = None \<and> gainNodes s3 ident = None \<and> effectNodes s3 ident = None
         \<and> old \<notin> live s3
         \<and> (isWired (wireOptions options) \<longrightarrow> nextSource s \<in> live s3)
         \<and> (fst (playAudio s1 ident url options True) \<longrightarrow> nextSource s \<in> live s3)"
proof -
  have s1: "timers s1 = timers s @ [(fadeOut * 1000, StopCleanup old ident)]"
    "nextSource s1 = nextSource s"
    using assms(1,2,4) by (simp_all add: stopAudio_def Let_def)
  have s2: "timers s2 = timers s @ [(fadeOut * 1000, StopCleanup old ident)]"
    "sources s2 ident = Some (nextSource s)"
    "live s2 = (if isWired (wireOptions options) then insert (nextSource s) (live s1) else live s1)"
    unfolding assms(5) by (simp_all add: playAudio_fetched playAudio_live s1)
  have s3: "s3 = runCallback (s2\<lparr>timers := timers s\<rparr>) (StopCleanup old ident)"
    unfolding assms(6) by (simp add: fireTimer_def s2(1) nth_append)
  have "fst (playAudio s1 ident url options True) \<longrightarrow> isWired (wireOptions options)"
    by (simp add: playAudio_result)
  then show ?thesis
    using s2 assms(3) unfolding s3 by (auto simp: runCallback_def)
qed

text \<open>
  Claim C2 fails as stated. The id \<open>a\<close> is stopped with a fade of 2 seconds and started again
  before the cleanup runs: the cleanup is still scheduled, and once it has run the id has no
  entry in any of the three maps, although the new source 1 is live.
\<close>

theorem restart_before_cleanup_counterexample:
  "timers (snd (playAudio (snd (stopAudio playedOnce ''a'' 2)) ''a'' ''a.mp3'' noOptions True))
     = [(2000, StopCleanup 0 ''a'')]
   \<and> sources (snd (playAudio (snd (stopAudio playedOnce ''a'' 2)) ''a'' ''a.mp3'' noOptions True)) ''a''
     = Some 1
   \<and> sources (fireTimer (snd (playAudio (snd (stopAudio playedOnce ''a'' 2)) ''a'' ''a.mp3'' noOptions True)) 0)
       ''a'' = None
   \<and> gainNodes (fireTimer (snd (playAudio (snd (stopAudio playedOnce ''a'' 2)) ''a'' ''a.mp3'' noOptions True)) 0)
       ''a'' = None
   \<and> effectNodes (fireTimer (snd (playAudio (snd (stopAudio playedOnce ''a'' 2)) ''a'' ''a.mp3'' noOptions True)) 0)
       ''a'' = None
   \<and> live (fireTimer (snd (playAudio (snd (stopAudio playedOnce ''a'' 2)) ''a'' ''a.mp3'' noOptions True)) 0)
     = {1}"
  by (auto simp add: playedOnce_simps stopAudio_def playAudio_def fireTimer_def runCallback_def
        noOptions_def Let_def)

text \<open>Claim C2, at the service that has played \<open>a\<close> once.\<close>

theorem restart_before_cleanup_witness:
  "sources playedOnce ''a'' = Some 0
   \<and> gainNodes playedOnce ''a'' = Some [SetValue 0, SetValueAtTime 0 0, LinearRampToValueAtTime 1 0.5]
   \<and> 0 < nextSource playedOnce
   \<and> sources (fireTimer (snd (playAudio (snd (stopAudio playedOnce ''a'' 2)) ''a'' ''a.mp3'' noOptions True))
                 (length (timers playedOnce))) ''a'' = None
   \<and> 1 \<in> live (fireTimer (snd (playAudio (snd (stopAudio playedOnce ''a'' 2)) ''a'' ''a.mp3'' noOptions True))
                 (length (timers playedOnce)))"
  using restart_before_cleanup[of playedOnce "''a''" 0
          "[SetValue 0, SetValueAtTime 0 0, LinearRampToValueAtTime 1 0.5]"
          "snd (stopAudio playedOnce ''a'' 2)" 2
          "snd (playAudio (snd (stopAudio playedOnce ''a'' 2)) ''a'' ''a.mp3'' noOptions True)"
          "''a.mp3''" noOptions
          "fireTimer (snd (playAudio (snd (stopAudio playedOnce ''a'' 2)) ''a'' ''a.mp3'' noOptions True))
                 (length (timers playedOnce))"]
  by (simp add: playedOnce_simps wireOptions_noOptions)

section \<open>EnhancedAudioService: unknown ids\<close>

text \<open>
  Claim C8. For an id that has no source (in a service whose three maps have the same keys,
  as they always have), \<open>stopAudio\<close>, \<open>setVolume\<close> and \<open>applyEffect\<close> return false and leave
  the service as it was. None of them throws: each is a total function that returns its result.
\<close>

theorem unknown_id_returns_false:
  assumes "aligned s" "sources s ident = None"
  shows "stopAudio s ident fadeOut = (False, s)
         \<and> setVolume s ident vol = (False, s)
         \<and> applyEffect s ident effectType ps = (False, s)"
proof -
  have "gainNodes s ident = None" "effectNodes s ident = None"
    using assms by (auto simp: aligned_def domIff)
  then show ?thesis
    using assms(2) by (simp add: stopAudio_def setVolume_def applyEffect_def)
qed

text \<open>Claim C8, at the service as constructed.\<close>

theorem unknown_id_returns_false_witness:
  "aligned initialService \<and> sources initialService ''a'' = None
   \<and> stopAudio initialService ''a'' 2 = (False, initialService)
   \<and> setVolume initialService ''a'' 1 = (False, initialService)
   \<and> applyEffect initialService ''a'' ''lowpass'' noParameters = (False, initialService)"
  using unknown_id_returns_false[of initialService "''a''" 2 1 "''lowpass''" noParameters]
    aligned_initial
  by (simp add: initialService_def)

section \<open>EnhancedAudioService: how parameters change\<close>

lemma lowpassPlaying_simps:
  "effectNodes lowpassPlaying ''a''
     = Some (emptyEffects\<lparr>lowpassFx := Some (FilterNode [SetValue 20000] [SetValue 1])\<rparr>)"
  "currentTime lowpassPlaying = 0"
  "gainNodes lowpassPlaying ''a'' = Some [SetValue 0, SetValueAtTime 0 0, LinearRampToValueAtTime 1 0.5]"
  "sources lowpassPlaying ''a'' = Some 0"
  by (simp_all add: lowpassPlaying_def playAudio_def initialService_def noOptions_def Let_def
        addEffect_def createLowpassFilter_def numberOr_def)

lemma setsAtNow_setIfTruthy: "setsAtNow now p (setIfTruthy v now p)"
  by (simp add: setsAtNow_def setIfTruthy_def split: option.splits)

lemma setsAtNow_setIfDefined: "setsAtNow now p (setIfDefined v f now p)"
  by (simp add: setsAtNow_def setIfDefined_def split: option.splits)

lemma setsAtNow_no_ramp:
  assumes "setsAtNow now old new" "new \<noteq> old"
  shows "\<not> endsWithRamp now new"
proof -
  define xs where "xs = drop (length old) new"
  have new: "new = old @ xs"
    using assms(1) by (metis append_take_drop_id setsAtNow_def xs_def)
  with assms(2) have ne: "xs \<noteq> []" by auto
  moreover have "list_all (isSetAt now) xs"
    using assms(1) by (simp add: setsAtNow_def xs_def)
  ultimately have "isSetAt now (last xs)" by (simp add: list_all_iff)
  moreover have "last new = last xs" using new ne by simp
  ultimately show ?thesis
    by (cases "last xs") (auto simp: endsWithRamp_def)
qed

lemma applyEffect_params:
  assumes "effectNodes s ident = Some m" "hasEffect m effectType"
  shows "\<exists>m'. effectNodes (snd (applyEffect s ident effectType ps)) ident = Some m'
            \<and> list_all2 (setsAtNow (currentTime s)) (nodeParams m effectType) (nodeParams m' effectType)"
proof -
  consider "effectType = ''lowpass''" | "effectType = ''highpass''" | "effectType = ''reverb''"
    | "effectType = ''delay''" | "effectType = ''pitchShift''" | "effectType = ''spatialAudio''"
    using assms(2) by (auto simp: hasEffect_def split: if_splits)
  then show ?thesis
  proof cases
    case 1
    with assms obtain f q where "lowpassFx m = Some (FilterNode f q)"
      by (cases "lowpassFx m") (auto simp: hasEffect_def intro: filterNode.exhaust)
    then show ?thesis using assms 1
      by (simp add: applyEffect_def Let_def nodeParams_def applyFilter_def setsAtNow_setIfTruthy)
  next
    case 2
    with assms obtain f q where "highpassFx m = Some (FilterNode f q)"
      by (cases "highpassFx m") (auto simp: hasEffect_def intro: filterNode.exhaust)
    then show ?thesis using assms 2
      by (simp add: applyEffect_def Let_def nodeParams_def applyFilter_def setsAtNow_setIfTruthy)
  next
    case 3
    with assms obtain w d l where "reverbFx m = Some (ReverbNode w d l)"
      by (cases "reverbFx m") (auto simp: hasEffect_def intro: reverbNode.exhaust)
    then show ?thesis using assms 3
      by (simp add: applyEffect_def Let_def nodeParams_def applyReverb_def setsAtNow_setIfDefined)
  next
    case 4
    with assms obtain t f where "delayFx m = Some (DelayNode t f)"
      by (cases "delayFx m") (auto simp: hasEffect_def intro: delayNode.exhaust)
    then show ?thesis using assms 4
      by (simp add: applyEffect_def Let_def nodeParams_def applyDelay_def setsAtNow_setIfDefined)
  next
    case 5
    then show ?thesis using assms
      by (simp add: applyEffect_def Let_def nodeParams_def)
  next
    case 6
    with assms obtain p where "spatialAudioFx m = Some (PannerNode p)"
      by (cases "spatialAudioFx m") (auto simp: hasEffect_def intro: pannerNode.exhaust)
    then show ?thesis using assms 6
      by (simp add: applyEffect_def Let_def nodeParams_def applySpatialAudio_def setsAtNow_setIfDefined)
  qed
qed

text \<open>
  Claim C5, as the source has it. \<open>setVolume\<close> on a known id reaches the new volume by a
  linear ramp that ends 0.05 seconds after the current time. \<open>applyEffect\<close> on a known id
  with the effect attached does not ramp: whatever it adds to an audio parameter of the node
  is a \<^verbatim>\<open>setValueAtTime\<close> at the current time, so a parameter it changes does not end with a
  ramp; and for the pitch shifter it assigns \<^verbatim>\<open>pitchRatio\<close> directly.
\<close>

theorem setVolume_ramps_applyEffect_sets:
  "(gainNodes s ident = Some gain \<longrightarrow>
      fst (setVolume s ident vol)
      \<and> gainNodes (snd (setVolume s ident vol)) ident
          = Some (gain @ [HoldValueAtTime (currentTime s),
                          LinearRampToValueAtTime vol (currentTime s + 0.05)])
      \<and> endsWithRamp (currentTime s) (the (gainNodes (snd (setVolume s ident vol)) ident)))
   \<and> (effectNodes s ident = Some m \<and> hasEffect m effectType \<longrightarrow>
      fst (applyEffect s ident effectType ps)
      \<and> (\<exists>m'. effectNodes (snd (applyEffect s ident effectType ps)) ident = Some m'
            \<and> list_all2 (\<lambda>old new. setsAtNow (currentTime s) old new
                                     \<and> (new \<noteq> old \<longrightarrow> \<not> endsWithRamp (currentTime s) new))
                 (nodeParams m effectType) (nodeParams m' effectType)))
   \<and> (effectNodes s ident = Some m \<and> pitchShiftFx m \<noteq> None \<and> p_amount ps = Some amount \<longrightarrow>
      (\<exists>m'. effectNodes (snd (applyEffect s ident ''pitchShift'' ps)) ident = Some m'
            \<and> pitchShiftFx m' = Some (PitchNode (2 powr (amount / 12)))))"
proof (intro conjI impI)
  assume "gainNodes s ident = Some gain"
  then show "fst (setVolume s ident vol)"
    and "gainNodes (snd (setVolume s ident vol)) ident
          = Some (gain @ [HoldValueAtTime (currentTime s),
                          LinearRampToValueAtTime vol (currentTime s + 0.05)])"
    and "endsWithRamp (currentTime s) (the (gainNodes (snd (setVolume s ident vol)) ident))"
    by (simp_all add: setVolume_def Let_def endsWithRamp_def)
next
  assume a: "effectNodes s ident = Some m \<and> hasEffect m effectType"
  then show "fst (applyEffect s ident effectType ps)"
    by (simp add: applyEffect_def Let_def)
  from a applyEffect_params[of s ident m effectType ps] obtain m' where
    m': "effectNodes (snd (applyEffect s ident effectType ps)) ident = Some m'"
    "list_all2 (setsAtNow (currentTime s)) (nodeParams m effectType) (nodeParams m' effectType)"
    by blast
  have "list_all2 (\<lambda>old new. setsAtNow (currentTime s) old new
                                     \<and> (new \<noteq> old \<longrightarrow> \<not> endsWithRamp (currentTime s) new))
          (nodeParams m effectType) (nodeParams m' effectType)"
    using m'(2) by (rule list_all2_mono) (simp add: setsAtNow_no_ramp)
  with m'(1)
  show "\<exists>m'. effectNodes (snd (applyEffect s ident effectType ps)) ident = Some m'
            \<and> list_all2 (\<lambda>old new. setsAtNow (currentTime s) old new
                                     \<and> (new \<noteq> old \<longrightarrow> \<not> endsWithRamp (currentTime s) new))
                 (nodeParams m effectType) (nodeParams m' effectType)"
    by blast
next
  assume "effectNodes s ident = Some m \<and> pitchShiftFx m \<noteq> None \<and> p_amount ps = Some amount"
  then show "\<exists>m'. effectNodes (snd (applyEffect s ident ''pitchShift'' ps)) ident = Some m'
            \<and> pitchShiftFx m' = Some (PitchNode (2 powr (amount / 12)))"
    by (auto simp: applyEffect_def Let_def hasEffect_def applyPitchShift_def)
qed

text \<open>
  Claim C5 fails as stated. On a source playing through a lowpass filter, \<open>applyEffect\<close> with
  the frequency 500 returns true and adds one \<^verbatim>\<open>setValueAtTime(500, 0)\<close> to the filter's
  frequency, at the current time 0: the frequency does not end with a ramp.
\<close>

theorem applyEffect_no_ramp_counterexample:
  "sources lowpassPlaying ''a'' = Some 0
   \<and> fst (applyEffect lowpassPlaying ''a'' ''lowpass'' (noParameters\<lparr>p_frequency := Some 500\<rparr>))
   \<and> nodeParams (the (effectNodes (snd (applyEffect lowpassPlaying ''a'' ''lowpass''
                        (noParameters\<lparr>p_frequency := Some 500\<rparr>))) ''a'')) ''lowpass''
       = [SetValue 20000, SetValueAtTime 500 0] # [SetValue 1] # []
   \<and> \<not> endsWithRamp 0 [SetValue 20000, SetValueAtTime 500 0]"
  by (simp add: lowpassPlaying_simps applyEffect_def hasEffect_def emptyEffects_def Let_def
        applyFilter_def setIfTruthy_def noParameters_def nodeParams_def endsWithRamp_def)

text \<open>Claim C5, at the source playing through a lowpass filter.\<close>

theorem setVolume_ramps_applyEffect_sets_witness:
  "gainNodes lowpassPlaying ''a'' = Some [SetValue 0, SetValueAtTime 0 0, LinearRampToValueAtTime 1 0.5]
   \<and> gainNodes (snd (setVolume lowpassPlaying ''a'' 0.3)) ''a''
       = Some [SetValue 0, SetValueAtTime 0 0, LinearRampToValueAtTime 1 0.5,
               HoldValueAtTime 0, LinearRampToValueAtTime 0.3 0.05]
   \<and> effectNodes lowpassPlaying ''a''
       = Some (emptyEffects\<lparr>lowpassFx := Some (FilterNode [SetValue 20000] [SetValue 1])\<rparr>)
   \<and> hasEffect (emptyEffects\<lparr>lowpassFx := Some (FilterNode [SetValue 20000] [SetValue 1])\<rparr>) ''lowpass''
   \<and> fst (applyEffect lowpassPlaying ''a'' ''lowpass'' (noParameters\<lparr>p_frequency := Some 500\<rparr>))"
  using setVolume_ramps_applyEffect_sets[of lowpassPlaying "''a''"
          "[SetValue 0, SetValueAtTime 0 0, LinearRampToValueAtTime 1 0.5]" "0.3"
          "emptyEffects\<lparr>lowpassFx := Some (FilterNode [SetValue 20000] [SetValue 1])\<rparr>"
          "''lowpass''" "noParameters\<lparr>p_frequency := Some 500\<rparr>" 0]
  by (simp add: lowpassPlaying_simps hasEffect_def emptyEffects_def)


section \<open>BoundaryTransitionManager: transition progress\<close>

lemmas transition_type_defs = VOLUME_FADE_def LOWPASS_FILTER_def HIGHPASS_FILTER_def
  REVERB_TAIL_def PITCH_SHIFT_def DELAY_FEEDBACK_def CROSSFADE_def DOPPLER_def SPATIAL_BLEND_def

lemma entryProgress_Num:
  "radius \<noteq> 0 \<Longrightarrow> entryProgress radius d = Num (min 1 (max 0 ((radius - d) / radius)))"
  by (simp add: entryProgress_def js_div_def)

text \<open>
  With a zero radius the quotient is an infinity, which the clamp brings back to 0 or 1, or
  it is \<^verbatim>\<open>NaN\<close>, which the clamp keeps.
\<close>

lemma entryProgress_zero_radius:
  "entryProgress 0 d = (if d = 0 then NaN else if d < 0 then Num 1 else Num 0)"
  by (simp add: entryProgress_def js_div_def)

lemma applyEntryTransition_single:
  "\<exists>args. applyEntryTransition rid url ts d = [PlayAudio rid url args]
          \<and> arg_volume args = entryProgress (transitionRadius ts) d
          \<and> arg_fadeIn args = fadeInLength ts"
  by (simp add: applyEntryTransition_def Let_def)

text \<open>
  Claim C4. For a boundary whose transition radius is not zero, the entry progress is
  \<open>min 1 (max 0 ((transitionRadius - distanceToEdge) / transitionRadius))\<close>, it lies between
  0 and 1, and it is the volume of the one \<open>playAudio\<close> call that \<open>applyEntryTransition\<close>
  makes. With the radius 10 it is 0 at distance 10, 0.5 at distance 5 and 1 at distance 0.
\<close>

theorem entry_progress_formula:
  assumes "transitionRadius ts \<noteq> 0"
  shows "entryProgress (transitionRadius ts) d
           = Num (min 1 (max 0 ((transitionRadius ts - d) / transitionRadius ts)))
         \<and> 0 \<le> min 1 (max 0 ((transitionRadius ts - d) / transitionRadius ts))
         \<and> min 1 (max 0 ((transitionRadius ts - d) / transitionRadius ts)) \<le> 1
         \<and> (\<exists>args. applyEntryTransition rid url ts d = [PlayAudio rid url args]
                 \<and> arg_volume args = entryProgress (transitionRadius ts) d)
         \<and> (transitionRadius ts = 10 \<longrightarrow>
               (d = 10 \<longrightarrow> entryProgress (transitionRadius ts) d = Num 0)
             \<and> (d = 5 \<longrightarrow> entryProgress (transitionRadius ts) d = Num 0.5)
             \<and> (d = 0 \<longrightarrow> entryProgress (transitionRadius ts) d = Num 1))"
  using assms applyEntryTransition_single[of rid url ts d]
  by (auto simp: entryProgress_Num)

text \<open>Claim C4, at the default settings (radius 10) and the distance 5.\<close>

theorem entry_progress_formula_witness:
  "transitionRadius defaultSettings \<noteq> 0
   \<and> entryProgress (transitionRadius defaultSettings) 5 = Num 0.5
   \<and> applyEntryTransition ''r'' ''r.mp3'' defaultSettings 5
       = [PlayAudio ''r'' ''r.mp3''
            \<lparr>arg_fadeIn = 1.5, arg_volume = Num 0.5, arg_loop = True, arg_effects = None\<rparr>]"
  using entry_progress_formula[of defaultSettings 5 "''r''" "''r.mp3''"]
  by (simp add: defaultSettings_def applyEntryTransition_def Let_def entryProgress_def js_div_def)

section \<open>BoundaryTransitionManager: teardown on exit\<close>

lemma teardownThreshold_value: "teardownThreshold = 3602879701896397 / 72057594037927936"
  by (simp add: teardownThreshold_def double_one_twentieth)

lemma exitProgress_at_radius: "exitProgress 10 10 = Num 0"
  by (simp add: exitProgress_def js_div_def js_sub_def double_values)

text \<open>
  With the radius 10 and the distance 9.5 the progress is one twentieth in exact arithmetic,
  but the quotient is rounded to \<^verbatim>\<open>0.95\<close>, the difference is
  \<^verbatim>\<open>0.050000000000000044\<close>, and that is above the threshold \<^verbatim>\<open>0.05\<close>.
\<close>

lemma exitProgress_near_threshold:
  "exitProgress 10 9.5 = Num (225179981368525 / 4503599627370496)"
  "\<not> js_le (exitProgress 10 9.5) (Num teardownThreshold)"
proof -
  have "(9.5 :: real) / 10 = 19 / 20" by simp
  then have q: "js_round (js_div 9.5 10) = Num (4278419646001971 / 4503599627370496)"
    by (simp add: js_div_def double_nineteen_twentieths)
  have "(1 :: real) - 4278419646001971 / 4503599627370496 = 225179981368525 / 4503599627370496"
    by simp
  then have "js_round (js_sub (Num 1) (Num (4278419646001971 / 4503599627370496)))
               = Num (225179981368525 / 4503599627370496)"
    by (simp add: js_sub_def double_above_twentieth)
  then show p: "exitProgress 10 9.5 = Num (225179981368525 / 4503599627370496)"
    unfolding exitProgress_def q by simp
  show "\<not> js_le (exitProgress 10 9.5) (Num teardownThreshold)"
    unfolding p teardownThreshold_value by simp
qed

text \<open>
  Claim C3, as the source has it. \<open>applyExitTransition\<close> compares the progress it has
  computed with the threshold 0.05 for the seven types LOWPASS_FILTER, HIGHPASS_FILTER,
  REVERB_TAIL, PITCH_SHIFT, DELAY_FEEDBACK, DOPPLER and SPATIAL_BLEND only. For these it never
  calls \<open>fadeOutAudio\<close>; above the threshold it makes no \<open>stopAudio\<close> call; and at or below
  the threshold it makes exactly one, for the region, with a fade of 1.5 times
  \<open>fadeOutLength\<close> for REVERB_TAIL, twice \<open>fadeOutLength\<close> for DELAY_FEEDBACK,
  \<open>fadeOutLength\<close> for PITCH_SHIFT, DOPPLER and SPATIAL_BLEND, and a fixed 0.5 seconds for
  LOWPASS_FILTER and HIGHPASS_FILTER. For VOLUME_FADE and every other type, whatever the
  progress is, its one call is \<open>fadeOutAudio\<close> for the region with \<open>fadeOutLength\<close>, and it
  makes no \<open>stopAudio\<close> call.
\<close>

theorem exit_teardown_fades:
  "(fadeOutType ts \<notin> {LOWPASS_FILTER, HIGHPASS_FILTER, REVERB_TAIL, PITCH_SHIFT,
                          DELAY_FEEDBACK, DOPPLER, SPATIAL_BLEND} \<longrightarrow>
      applyExitTransition rid ts d = [FadeOutAudio rid (fadeOutLength ts)]
      \<and> stopCalls (applyExitTransition rid ts d) = [])
   \<and> (fadeOutType ts \<in> {LOWPASS_FILTER, HIGHPASS_FILTER, REVERB_TAIL, PITCH_SHIFT,
                          DELAY_FEEDBACK, DOPPLER, SPATIAL_BLEND} \<longrightarrow>
      fadeOutCalls (applyExitTransition rid ts d) = []
      \<and> (\<not> js_le (exitProgress (transitionRadius ts) d) (Num teardownThreshold) \<longrightarrow>
           stopCalls (applyExitTransition rid ts d) = []))
   \<and> (js_le (exitProgress (transitionRadius ts) d) (Num teardownThreshold) \<longrightarrow>
        (fadeOutType ts = REVERB_TAIL \<longrightarrow>
           stopCalls (applyExitTransition rid ts d) = [StopAudio rid (fadeOutLength ts * 1.5)])
      \<and> (fadeOutType ts = DELAY_FEEDBACK \<longrightarrow>
           stopCalls (applyExitTransition rid ts d) = [StopAudio rid (fadeOutLength ts * 2)])
      \<and> (fadeOutType ts \<in> {PITCH_SHIFT, DOPPLER, SPATIAL_BLEND} \<longrightarrow>
           stopCalls (applyExitTransition rid ts d) = [StopAudio rid (fadeOutLength ts)])
      \<and> (fadeOutType ts \<in> {LOWPASS_FILTER, HIGHPASS_FILTER} \<longrightarrow>
           stopCalls (applyExitTransition rid ts d) = [StopAudio rid 0.5]))"
proof (intro conjI impI)
  assume "fadeOutType ts \<notin> {LOWPASS_FILTER, HIGHPASS_FILTER, REVERB_TAIL, PITCH_SHIFT,
                          DELAY_FEEDBACK, DOPPLER, SPATIAL_BLEND}"
  then show e: "applyExitTransition rid ts d = [FadeOutAudio rid (fadeOutLength ts)]"
    by (auto simp: applyExitTransition_def Let_def)
  show "stopCalls (applyExitTransition rid ts d) = []"
    unfolding e by (simp add: stopCalls_def)
next
  assume "fadeOutType ts \<in> {LOWPASS_FILTER, HIGHPASS_FILTER, REVERB_TAIL, PITCH_SHIFT,
                          DELAY_FEEDBACK, DOPPLER, SPATIAL_BLEND}"
  then show "fadeOutCalls (applyExitTransition rid ts d) = []"
    by (auto simp: applyExitTransition_def Let_def fadeOutCalls_def transition_type_defs)
next
  assume "\<not> js_le (exitProgress (transitionRadius ts) d) (Num teardownThreshold)"
  then show "stopCalls (applyExitTransition rid ts d) = []"
    by (simp add: applyExitTransition_def Let_def stopCalls_def)
next
  assume t: "js_le (exitProgress (transitionRadius ts) d) (Num teardownThreshold)"
  {
    assume "fadeOutType ts = REVERB_TAIL"
    then show "stopCalls (applyExitTransition rid ts d) = [StopAudio rid (fadeOutLength ts * 1.5)]"
      using t by (simp add: applyExitTransition_def Let_def stopCalls_def transition_type_defs)
  }
  {
    assume "fadeOutType ts = DELAY_FEEDBACK"
    then show "stopCalls (applyExitTransition rid ts d) = [StopAudio rid (fadeOutLength ts * 2)]"
      using t by (simp add: applyExitTransition_def Let_def stopCalls_def transition_type_defs)
  }
  {
    assume "fadeOutType ts \<in> {PITCH_SHIFT, DOPPLER, SPATIAL_BLEND}"
    then show "stopCalls (applyExitTransition rid ts d) = [StopAudio rid (fadeOutLength ts)]"
      using t by (auto simp: applyExitTransition_def Let_def stopCalls_def transition_type_defs)
  }
  {
    assume "fadeOutType ts \<in> {LOWPASS_FILTER, HIGHPASS_FILTER}"
    then show "stopCalls (applyExitTransition rid ts d) = [StopAudio rid 0.5]"
      using t by (auto simp: applyExitTransition_def Let_def stopCalls_def transition_type_defs)
  }
qed

text \<open>
  Claim C3 fails as stated. With the default settings (\<open>fadeOutLength\<close> 2, radius 10) and the
  type LOWPASS_FILTER, at distance 10 the progress is 0 and the source is stopped with a fade
  of 0.5 seconds, not 2. With the type VOLUME_FADE the same update stops nothing: its only
  call is a \<open>fadeOutAudio\<close>.
\<close>

theorem exit_teardown_fades_counterexample:
  "js_le (exitProgress (transitionRadius (defaultSettings\<lparr>fadeOutType := LOWPASS_FILTER\<rparr>)) 10)
     (Num teardownThreshold)
   \<and> fadeOutLength (defaultSettings\<lparr>fadeOutType := LOWPASS_FILTER\<rparr>) = 2
   \<and> stopCalls (applyExitTransition ''r'' (defaultSettings\<lparr>fadeOutType := LOWPASS_FILTER\<rparr>) 10)
       = [StopAudio ''r'' 0.5]
   \<and> js_le (exitProgress (transitionRadius defaultSettings) 10) (Num teardownThreshold)
   \<and> fadeOutType defaultSettings = VOLUME_FADE
   \<and> applyExitTransition ''r'' defaultSettings 10 = [FadeOutAudio ''r'' 2]"
  by (simp add: defaultSettings_def applyExitTransition_def Let_def exitProgress_at_radius
        teardownThreshold_value stopCalls_def transition_type_defs)

text \<open>
  Claim C3, at the default settings with the type REVERB_TAIL: at the distance 10 the source
  is stopped with a fade of 3 seconds, and at the distance 9.5 it is not stopped.
\<close>

theorem exit_teardown_fades_witness:
  "js_le (exitProgress (transitionRadius (defaultSettings\<lparr>fadeOutType := REVERB_TAIL\<rparr>)) 10)
     (Num teardownThreshold)
   \<and> stopCalls (applyExitTransition ''r'' (defaultSettings\<lparr>fadeOutType := REVERB_TAIL\<rparr>) 10)
       = [StopAudio ''r'' 3]
   \<and> \<not> js_le (exitProgress (transitionRadius (defaultSettings\<lparr>fadeOutType := REVERB_TAIL\<rparr>)) 9.5)
       (Num teardownThreshold)
   \<and> stopCalls (applyExitTransition ''r'' (defaultSettings\<lparr>fadeOutType := REVERB_TAIL\<rparr>) 9.5) = []
   \<and> fadeOutCalls (applyExitTransition ''r'' (defaultSettings\<lparr>fadeOutType := REVERB_TAIL\<rparr>) 9.5) = []"
  using exit_teardown_fades[of "defaultSettings\<lparr>fadeOutType := REVERB_TAIL\<rparr>" "''r''" 10]
    exit_teardown_fades[of "defaultSettings\<lparr>fadeOutType := REVERB_TAIL\<rparr>" "''r''" "9.5"]
    exitProgress_near_threshold(2)
  by (simp add: defaultSettings_def exitProgress_at_radius teardownThreshold_value
        transition_type_defs)

section \<open>BoundaryTransitionManager: crossfades\<close>

lemma calculateDistance_nonneg: "0 \<le> calculateDistance a b"
  by (simp add: calculateDistance_def)

lemma handleCrossfades_mem:
  assumes "i < j" "j < length rs"
  shows "set (crossfadePair (rs ! i) (rs ! j) position) \<subseteq> set (handleCrossfades (Some rs) position)"
proof -
  have "1 < length rs" using assms by simp
  moreover have "i \<in> set [0..<length rs]" "j \<in> set [i + 1..<length rs]" using assms by auto
  ultimately show ?thesis
    by (fastforce simp: handleCrossfades_def)
qed

lemma handleCrossfades_origin:
  assumes "c \<in> set (handleCrossfades (Some rs) position)"
  shows "\<exists>i j. i < j \<and> j < length rs \<and> c \<in> set (crossfadePair (rs ! i) (rs ! j) position)"
proof -
  from assms obtain i j where "i < length rs" "Suc i \<le> j" "j < length rs"
    "c \<in> set (crossfadePair (rs ! i) (rs ! j) position)"
    by (auto simp: handleCrossfades_def split: if_splits)
  then have "i < j \<and> j < length rs \<and> c \<in> set (crossfadePair (rs ! i) (rs ! j) position)"
    by simp
  then show ?thesis by blast
qed

lemma handleCrossfades_two:
  "handleCrossfades (Some [r1, r2]) position = crossfadePair r1 r2 position"
proof -
  have "[0..<2] = [0, 1]" "[1..<2] = [1]" "[2..<2] = []" by (simp_all add: upt_rec)
  then show ?thesis by (simp add: handleCrossfades_def)
qed

lemma crossfadePair_nonempty:
  "c \<in> set (crossfadePair r1 r2 position)
     \<Longrightarrow> calculateDistance position (center r1) + calculateDistance position (center r2) \<noteq> 0"
  by (auto simp: crossfadePair_def Let_def split: if_splits)

lemma blend_bounds:
  fixes b r :: real
  assumes "0 \<le> b" "0 \<le> r" "r \<le> 1"
  shows "0.7 * b \<le> b * (0.7 + 0.3 * r) \<and> b * (0.7 + 0.3 * r) \<le> 1.0 * b"
proof -
  have "0 \<le> b * r" using assms by simp
  moreover have "b * r \<le> b * 1" using assms by (intro mult_left_mono) simp_all
  ultimately have "0 \<le> b * r" "b * r \<le> b" by simp_all
  then show ?thesis by (simp add: algebra_simps)
qed

text \<open>
  Claim C6. For two regions of the active list that both have crossfade enabled and whose
  distances \<open>d1\<close>, \<open>d2\<close> from the listener to their centers do not add up to zero (the pair is
  skipped otherwise), the pair makes the two \<open>setVolume\<close> calls with the volumes
  \<open>baseVolume * (0.7 + 0.3 * ratio)\<close>, where \<open>ratio = 1 - d / (d1 + d2)\<close>, and
  \<open>handleCrossfades\<close> issues them. Each volume lies between 0.7 and 1.0 times the base volume
  when that is not negative, and both equal 0.85 times the base volume when \<open>d1 = d2\<close>.
\<close>

theorem crossfade_volumes:
  assumes "i < j" "j < length rs"
    and "crossfadeOverlap (settings (rs ! i))" "crossfadeOverlap (settings (rs ! j))"
    and "d1 = calculateDistance position (center (rs ! i))"
    and "d2 = calculateDistance position (center (rs ! j))"
    and "d1 + d2 \<noteq> 0"
    and "v1 = baseVolume (rs ! i) * (0.7 + 0.3 * (1 - d1 / (d1 + d2)))"
    and "v2 = baseVolume (rs ! j) * (0.7 + 0.3 * (1 - d2 / (d2 + d1)))"
  shows "crossfadePair (rs ! i) (rs ! j) position
           = [SetVolume (regionId (rs ! i)) (Num v1), SetVolume (regionId (rs ! j)) (Num v2)]
         \<and> set (crossfadePair (rs ! i) (rs ! j) position) \<subseteq> set (handleCrossfades (Some rs) position)
         \<and> (0 \<le> baseVolume (rs ! i) \<longrightarrow> 0.7 * baseVolume (rs ! i) \<le> v1 \<and> v1 \<le> 1.0 * baseVolume (rs ! i))
         \<and> (0 \<le> baseVolume (rs ! j) \<longrightarrow> 0.7 * baseVolume (rs ! j) \<le> v2 \<and> v2 \<le> 1.0 * baseVolume (rs ! j))
         \<and> (d1 = d2 \<longrightarrow> v1 = baseVolume (rs ! i) * 0.85 \<and> v2 = baseVolume (rs ! j) * 0.85)"
proof -
  have nn: "0 \<le> d1" "0 \<le> d2" using assms(5,6) by (simp_all add: calculateDistance_nonneg)
  with assms(7) have pos: "0 < d1 + d2" by linarith
  have r1: "0 \<le> 1 - d1 / (d1 + d2)" "1 - d1 / (d1 + d2) \<le> 1"
    using nn pos by (simp_all add: field_simps)
  have r2: "0 \<le> 1 - d2 / (d2 + d1)" "1 - d2 / (d2 + d1) \<le> 1"
    using nn pos by (simp_all add: field_simps)
  have pair: "crossfadePair (rs ! i) (rs ! j) position
           = [SetVolume (regionId (rs ! i)) (Num v1), SetVolume (regionId (rs ! j)) (Num v2)]"
    using assms(3-9) by (simp add: crossfadePair_def Let_def add.commute)
  have bi: "0 \<le> baseVolume (rs ! i) \<longrightarrow>
              0.7 * baseVolume (rs ! i) \<le> v1 \<and> v1 \<le> 1.0 * baseVolume (rs ! i)"
    unfolding assms(8) using blend_bounds[OF _ r1] by blast
  have bj: "0 \<le> baseVolume (rs ! j) \<longrightarrow>
              0.7 * baseVolume (rs ! j) \<le> v2 \<and> v2 \<le> 1.0 * baseVolume (rs ! j)"
    unfolding assms(9) using blend_bounds[OF _ r2] by blast
  have half: "1 - d / (d + d) = 1 / 2" if "0 < d + d" for d :: real
    using that by (simp add: field_simps)
  have eq: "d1 = d2 \<longrightarrow> v1 = baseVolume (rs ! i) * 0.85 \<and> v2 = baseVolume (rs ! j) * 0.85"
  proof
    assume e: "d1 = d2"
    then have "0 < d2 + d2" using pos by simp
    from half[OF this] show "v1 = baseVolume (rs ! i) * 0.85 \<and> v2 = baseVolume (rs ! j) * 0.85"
      unfolding assms(8,9) e by simp
  qed
  show ?thesis
    using pair handleCrossfades_mem[OF assms(1,2), of position] bi bj eq by blast
qed

text \<open>
  Claim C6, at two default regions centered at (0, 0) and (0, 2) and a listener at (0, 1),
  at distance 1 from both: each volume is 0.85.
\<close>

theorem crossfade_volumes_witness:
  "(0 :: nat) < 1 \<and> 1 < length [exampleRegion ''p'' 0 0, exampleRegion ''q'' 0 2]
   \<and> crossfadeOverlap (settings ([exampleRegion ''p'' 0 0, exampleRegion ''q'' 0 2] ! 0))
   \<and> crossfadeOverlap (settings ([exampleRegion ''p'' 0 0, exampleRegion ''q'' 0 2] ! 1))
   \<and> calculateDistance \<lparr>lat = 0, lng = 1\<rparr> (center (exampleRegion ''p'' 0 0)) = 1
   \<and> calculateDistance \<lparr>lat = 0, lng = 1\<rparr> (center (exampleRegion ''q'' 0 2)) = 1
   \<and> crossfadePair (exampleRegion ''p'' 0 0) (exampleRegion ''q'' 0 2) \<lparr>lat = 0, lng = 1\<rparr>
       = [SetVolume ''p'' (Num 0.85), SetVolume ''q'' (Num 0.85)]
   \<and> set [SetVolume ''p'' (Num 0.85), SetVolume ''q'' (Num 0.85)]
       \<subseteq> set (handleCrossfades (Some [exampleRegion ''p'' 0 0, exampleRegion ''q'' 0 2]) \<lparr>lat = 0, lng = 1\<rparr>)"
proof -
  let ?p = "exampleRegion ''p'' 0 0" and ?q = "exampleRegion ''q'' 0 2"
  let ?pos = "\<lparr>lat = 0, lng = 1\<rparr>"
  have d: "calculateDistance ?pos (center ?p) = 1" "calculateDistance ?pos (center ?q) = 1"
    by (simp_all add: calculateDistance_def exampleRegion_def)
  have b: "baseVolume ?p = 1" "baseVolume ?q = 1"
    by (simp_all add: baseVolume_def exampleRegion_def defaultSettings_def)
  have ov: "crossfadeOverlap (settings ?p)" "crossfadeOverlap (settings ?q)"
    by (simp_all add: exampleRegion_def defaultSettings_def)
  have ids: "regionId ?p = ''p''" "regionId ?q = ''q''"
    by (simp_all add: exampleRegion_def)
  have "crossfadePair ([?p, ?q] ! 0) ([?p, ?q] ! 1) ?pos
           = [SetVolume (regionId ([?p, ?q] ! 0)) (Num 0.85), SetVolume (regionId ([?p, ?q] ! 1)) (Num 0.85)]
         \<and> set (crossfadePair ([?p, ?q] ! 0) ([?p, ?q] ! 1) ?pos)
             \<subseteq> set (handleCrossfades (Some [?p, ?q]) ?pos)"
    using crossfade_volumes[of 0 1 "[?p, ?q]" 1 ?pos 1 "0.85" "0.85"] d b ov by auto
  then show ?thesis using d ov ids by auto
qed

text \<open>
  Claim C9. A pair of regions whose two distances to the listener add up to zero is skipped:
  it makes no call, so \<open>handleCrossfades\<close> on two such regions makes none. Every call that
  \<open>handleCrossfades\<close> makes comes from a pair whose total distance is not zero, so no ratio
  is a quotient by zero.
\<close>

theorem crossfade_zero_total_skipped:
  "(calculateDistance position (center r1) + calculateDistance position (center r2) = 0
      \<longrightarrow> crossfadePair r1 r2 position = [] \<and> handleCrossfades (Some [r1, r2]) position = [])
   \<and> (\<forall>c \<in> set (handleCrossfades (Some rs) position).
         \<exists>i j. i < j \<and> j < length rs \<and> c \<in> set (crossfadePair (rs ! i) (rs ! j) position)
           \<and> calculateDistance position (center (rs ! i))
               + calculateDistance position (center (rs ! j)) \<noteq> 0)"
proof (intro conjI impI ballI)
  assume "calculateDistance position (center r1) + calculateDistance position (center r2) = 0"
  then show "crossfadePair r1 r2 position = []" "handleCrossfades (Some [r1, r2]) position = []"
    by (simp_all add: handleCrossfades_two crossfadePair_def Let_def)
next
  fix c
  assume "c \<in> set (handleCrossfades (Some rs) position)"
  from handleCrossfades_origin[OF this] obtain i j where
    ij: "i < j" "j < length rs" "c \<in> set (crossfadePair (rs ! i) (rs ! j) position)" by blast
  from crossfadePair_nonempty[OF ij(3)] ij
  show "\<exists>i j. i < j \<and> j < length rs \<and> c \<in> set (crossfadePair (rs ! i) (rs ! j) position)
           \<and> calculateDistance position (center (rs ! i))
               + calculateDistance position (center (rs ! j)) \<noteq> 0"
    by blast
qed

text \<open>
  Claim C9, at two default regions with the same center and a listener standing on it, and at
  the two regions and the listener of the example above, where both calls come from the pair
  at total distance 2.
\<close>

theorem crossfade_zero_total_skipped_witness:
  "calculateDistance \<lparr>lat = 0, lng = 0\<rparr> (center (exampleRegion ''p'' 0 0))
     + calculateDistance \<lparr>lat = 0, lng = 0\<rparr> (center (exampleRegion ''q'' 0 0)) = 0
   \<and> handleCrossfades (Some [exampleRegion ''p'' 0 0, exampleRegion ''q'' 0 0]) \<lparr>lat = 0, lng = 0\<rparr> = []
   \<and> SetVolume ''p'' (Num 0.85)
       \<in> set (handleCrossfades (Some [exampleRegion ''p'' 0 0, exampleRegion ''q'' 0 2]) \<lparr>lat = 0, lng = 1\<rparr>)"
proof -
  have z: "calculateDistance \<lparr>lat = 0, lng = 0\<rparr> (center (exampleRegion ''p'' 0 0))
     + calculateDistance \<lparr>lat = 0, lng = 0\<rparr> (center (exampleRegion ''q'' 0 0)) = 0"
    by (simp add: calculateDistance_def exampleRegion_def)
  have m: "SetVolume ''p'' (Num 0.85)
       \<in> set (handleCrossfades (Some [exampleRegion ''p'' 0 0, exampleRegion ''q'' 0 2]) \<lparr>lat = 0, lng = 1\<rparr>)"
    by (simp add: handleCrossfades_two crossfadePair_def Let_def calculateDistance_def
          exampleRegion_def defaultSettings_def baseVolume_def)
  show ?thesis
    using crossfade_zero_total_skipped[of "\<lparr>lat = 0, lng = 0\<rparr>" "exampleRegion ''p'' 0 0"
            "exampleRegion ''q'' 0 0" "[exampleRegion ''p'' 0 0, exampleRegion ''q'' 0 2]"] z m
    by simp
qed


end
